theory Spec2Isabelle
  imports Main
begin

section \<open>Thrown values\<close>

text \<open>
  Every rejection of a promise is a value of type \<open>error\<close>. \<open>NonError\<close> stands for a thrown
  value that is not an instance of the JavaScript class \<open>Error\<close> (the circuit breaker tests
  \<open>error instanceof Error\<close> before it reports).
\<close>

datatype error =
    StoreError string
  | WrongType
  | NotAnInteger
  | FetchError string
  | SerializationError string
  | UnhandledError
  | NonError string

fun instanceof_Error :: "error \<Rightarrow> bool" where
  "instanceof_Error (NonError _) = False"
| "instanceof_Error _ = True"


section \<open>Asynchronous actions\<close>

text \<open>
  An \<open>async\<close> function is a state transformer that returns a value or throws; whatever it
  did to the state before it threw stays done. \<open>await m f\<close> is \<open>const x = await m; f x\<close>.
\<close>

type_synonym ('w, 'a) action = "'w \<Rightarrow> (error + 'a) \<times> 'w"

definition ret :: "'a \<Rightarrow> ('w, 'a) action" where
  "ret x = (\<lambda>w. (Inr x, w))"

definition throw :: "error \<Rightarrow> ('w, 'a) action" where
  "throw e = (\<lambda>w. (Inl e, w))"

definition await :: "('w, 'a) action \<Rightarrow> ('a \<Rightarrow> ('w, 'b) action) \<Rightarrow> ('w, 'b) action" where
  "await m f = (\<lambda>w. case m w of (Inl e, w') \<Rightarrow> (Inl e, w') | (Inr x, w') \<Rightarrow> f x w')"

definition whenever :: "bool \<Rightarrow> ('w, unit) action \<Rightarrow> ('w, unit) action" where
  "whenever b m = (if b then m else ret ())"

section \<open>JavaScript values\<close>

text \<open>
  The values a cache holds. Numbers are integers (TTLs in seconds, timestamps in
  milliseconds); an object is the list of its own properties.
\<close>

datatype jsval =
    JUndefined
  | JNull
  | JBool bool
  | JNum int
  | JStr string
  | JObj "(string \<times> jsval) list"
  | JArr "jsval list"

fun truthy :: "jsval \<Rightarrow> bool" where
  "truthy JUndefined = False"
| "truthy JNull = False"
| "truthy (JBool b) = b"
| "truthy (JNum n) = (n \<noteq> 0)"
| "truthy (JStr s) = (s \<noteq> [])"
| "truthy (JObj _) = True"
| "truthy (JArr _) = True"

text \<open>\<open>typeof v === 'object'\<close> (which \<open>null\<close> satisfies too).\<close>

fun typeof_object :: "jsval \<Rightarrow> bool" where
  "typeof_object JNull = True"
| "typeof_object (JObj _) = True"
| "typeof_object (JArr _) = True"
| "typeof_object _ = False"

text \<open>
  \<open>k in v\<close> and \<open>v.k\<close>, for the property names \<open>data\<close>, \<open>expiresAt\<close> and \<open>staleUntil\<close>, none
  of which an array has.
\<close>

fun has_property :: "string \<Rightarrow> jsval \<Rightarrow> bool" where
  "has_property k (JObj fs) = (map_of fs k \<noteq> None)"
| "has_property k _ = False"

fun property :: "jsval \<Rightarrow> string \<Rightarrow> jsval" where
  "property (JObj fs) k = (case map_of fs k of Some v \<Rightarrow> v | None \<Rightarrow> JUndefined)"
| "property _ k = JUndefined"

definition nullish :: "jsval \<Rightarrow> bool" where
  "nullish v = (v = JNull \<or> v = JUndefined)"

text \<open>
  \<open>now > v\<close> for a number \<open>now\<close> (\<open>IsLessThan\<close>, ECMA-262 7.2.13). A number is compared as
  it is; \<open>true\<close> is 1, \<open>false\<close> and \<open>null\<close> are 0; \<open>undefined\<close> is \<open>NaN\<close>, and a comparison with
  \<open>NaN\<close> is false. A string is converted by the runtime's \<open>StringToNumber\<close> (\<open>'5'\<close> to 5,
  \<open>' 1e3 '\<close> to 1000, \<open>''\<close> to 0, \<open>'abc'\<close> to \<open>NaN\<close>), which is no part of this repository:
  \<open>gt_string now s\<close> stands for the runtime's \<open>now > s\<close> on a string \<open>s\<close>, and every result
  below holds whatever it is. An array is first converted to the string \<open>join\<close> makes of it
  (\<open>[5]\<close> to \<open>'5'\<close>, \<open>[]\<close> to \<open>''\<close>); a plain object becomes \<open>'[object Object]'\<close>, which is
  \<open>NaN\<close>.
\<close>

type_synonym string_comparison = "int \<Rightarrow> string \<Rightarrow> bool"

fun join :: "string \<Rightarrow> string list \<Rightarrow> string" where
  "join sep [] = []"
| "join sep [x] = x"
| "join sep (x # y # ys) = x @ sep @ join sep (y # ys)"

text \<open>Decimal numerals, as Redis prints and reads the integers it counts with.\<close>

definition digit :: "nat \<Rightarrow> char" where
  "digit d = ''0123456789'' ! d"

fun show_nat :: "nat \<Rightarrow> string" where
  "show_nat n = (if n < 10 then [digit n] else show_nat (n div 10) @ [digit (n mod 10)])"

declare show_nat.simps [simp del]

definition show_int :: "int \<Rightarrow> string" where
  "show_int i = (if i < 0 then CHR ''-'' # show_nat (nat (- i)) else show_nat (nat i))"

text \<open>\<open>String(v)\<close>; an array joins its elements with commas, \<open>null\<close> and \<open>undefined\<close> as \<open>''\<close>.\<close>

fun js_toString :: "jsval \<Rightarrow> string" where
  "js_toString JUndefined = ''undefined''"
| "js_toString JNull = ''null''"
| "js_toString (JBool b) = (if b then ''true'' else ''false'')"
| "js_toString (JNum n) = show_int n"
| "js_toString (JStr s) = s"
| "js_toString (JObj _) = ''[object Object]''"
| "js_toString (JArr xs) =
     join '','' (map (\<lambda>x. if x = JNull \<or> x = JUndefined then [] else js_toString x) xs)"

fun js_gt :: "string_comparison \<Rightarrow> int \<Rightarrow> jsval \<Rightarrow> bool" where
  "js_gt gt_string now (JNum n) = (now > n)"
| "js_gt gt_string now (JBool b) = (now > (if b then 1 else 0))"
| "js_gt gt_string now JNull = (now > 0)"
| "js_gt gt_string now JUndefined = False"
| "js_gt gt_string now (JStr s) = gt_string now s"
| "js_gt gt_string now (JArr xs) = gt_string now (js_toString (JArr xs))"
| "js_gt gt_string now (JObj _) = False"

section \<open>Strings\<close>

text \<open>\<open>s.split(c)\<close>: the result is never empty.\<close>

fun split :: "char \<Rightarrow> string \<Rightarrow> string list" where
  "split c [] = [[]]"
| "split c (x # xs) =
     (if x = c then [] # split c xs
      else (case split c xs of p # ps \<Rightarrow> (x # p) # ps | [] \<Rightarrow> [[x]]))"

definition is_digit :: "char \<Rightarrow> bool" where
  "is_digit c = (c \<in> set ''0123456789'')"

definition digit_value :: "char \<Rightarrow> nat" where
  "digit_value c = length (takeWhile (\<lambda>x. x \<noteq> c) ''0123456789'')"

definition digits_value :: "string \<Rightarrow> nat" where
  "digits_value s = foldl (\<lambda>acc c. 10 * acc + digit_value c) 0 s"

text \<open>
  A string Redis accepts as a 64-bit integer: digits with no leading zero, an optional
  minus sign before a non-zero number, and a value in range.
\<close>

definition parse_nat :: "string \<Rightarrow> nat option" where
  "parse_nat s =
     (if s \<noteq> [] \<and> list_all is_digit s \<and> (hd s \<noteq> CHR ''0'' \<or> length s = 1)
      then Some (digits_value s) else None)"

definition parse_int :: "string \<Rightarrow> int option" where
  "parse_int s =
     (case s of
        [] \<Rightarrow> None
      | c # rest \<Rightarrow>
          (if c = CHR ''-'' then
             (case parse_nat rest of
                Some n \<Rightarrow> (if n = 0 \<or> 9223372036854775808 < n then None else Some (- int n))
              | None \<Rightarrow> None)
           else
             (case parse_nat s of
                Some n \<Rightarrow> (if 9223372036854775807 < n then None else Some (int n))
              | None \<Rightarrow> None)))"

text \<open>An action preserves a property of the state, however it ends.\<close>

definition preserves :: "('w \<Rightarrow> bool) \<Rightarrow> ('w, 'a) action \<Rightarrow> bool" where
  "preserves P m = (\<forall>w. P w \<longrightarrow> P (snd (m w)))"


section \<open>The shared store (the ioredis client and the Redis server behind it)\<close>

text \<open>
  A key holds a string or a set of strings, and may carry the time (in milliseconds) at
  which it expires. An expired key is not there any more for any command.
\<close>

datatype rvalue = RString string | RSet "string list"

type_synonym keyspace = "string \<rightharpoonup> (rvalue \<times> int option)"

definition live :: "int \<Rightarrow> keyspace \<Rightarrow> string \<Rightarrow> (rvalue \<times> int option) option" where
  "live now ks k =
     (case ks k of
        Some (v, Some deadline) \<Rightarrow> (if deadline \<le> now then None else Some (v, Some deadline))
      | other \<Rightarrow> other)"

datatype command =
    GET string
  | SET string string
  | SETEX string int string
  | EXPIRE string int
  | DEL "string list"
  | INCR string
  | SADD string string
  | SREM string string
  | SMEMBERS string
  | MGET "string list"

datatype reply =
    Nil
  | Bulk string
  | Integer int
  | Ok
  | Members "string list"
  | Values "string option list"

fun run_command :: "int \<Rightarrow> command \<Rightarrow> keyspace \<Rightarrow> (error + reply) \<times> keyspace" where
  "run_command now (GET k) ks =
     (case live now ks k of
        None \<Rightarrow> (Inr Nil, ks)
      | Some (RString s, _) \<Rightarrow> (Inr (Bulk s), ks)
      | Some (RSet _, _) \<Rightarrow> (Inl WrongType, ks))"
| "run_command now (SET k v) ks = (Inr Ok, ks(k \<mapsto> (RString v, None)))"
| "run_command now (SETEX k seconds v) ks =
     (if seconds \<le> 0 then (Inl (StoreError ''ERR invalid expire time''), ks)
      else (Inr Ok, ks(k \<mapsto> (RString v, Some (now + seconds * 1000)))))"
| "run_command now (EXPIRE k seconds) ks =
     (case live now ks k of
        None \<Rightarrow> (Inr (Integer 0), ks)
      | Some (v, _) \<Rightarrow>
          (if seconds \<le> 0 then (Inr (Integer 1), ks(k := None))
           else (Inr (Integer 1), ks(k \<mapsto> (v, Some (now + seconds * 1000))))))"
| "run_command now (DEL keys) ks =
     (Inr (Integer (int (length (filter (\<lambda>k. live now ks k \<noteq> None) (remdups keys))))),
      (\<lambda>k. if k \<in> set keys then None else ks k))"
| "run_command now (INCR k) ks =
     (case live now ks k of
        None \<Rightarrow> (Inr (Integer 1), ks(k \<mapsto> (RString (show_int 1), None)))
      | Some (RString s, deadline) \<Rightarrow>
          (case parse_int s of
             None \<Rightarrow> (Inl NotAnInteger, ks)
           | Some n \<Rightarrow>
               (if 9223372036854775807 \<le> n then (Inl (StoreError ''ERR increment would overflow''), ks)
                else (Inr (Integer (n + 1)), ks(k \<mapsto> (RString (show_int (n + 1)), deadline)))))
      | Some (RSet _, _) \<Rightarrow> (Inl WrongType, ks))"
| "run_command now (SADD k m) ks =
     (case live now ks k of
        None \<Rightarrow> (Inr (Integer 1), ks(k \<mapsto> (RSet [m], None)))
      | Some (RSet ms, deadline) \<Rightarrow>
          (if m \<in> set ms then (Inr (Integer 0), ks)
           else (Inr (Integer 1), ks(k \<mapsto> (RSet (ms @ [m]), deadline))))
      | Some (RString _, _) \<Rightarrow> (Inl WrongType, ks))"
| "run_command now (SREM k m) ks =
     (case live now ks k of
        None \<Rightarrow> (Inr (Integer 0), ks)
      | Some (RSet ms, deadline) \<Rightarrow>
          (if m \<in> set ms then
             (Inr (Integer 1),
              if removeAll m ms = [] then ks(k := None)
              else ks(k \<mapsto> (RSet (removeAll m ms), deadline)))
           else (Inr (Integer 0), ks))
      | Some (RString _, _) \<Rightarrow> (Inl WrongType, ks))"
| "run_command now (SMEMBERS k) ks =
     (case live now ks k of
        None \<Rightarrow> (Inr (Members []), ks)
      | Some (RSet ms, _) \<Rightarrow> (Inr (Members ms), ks)
      | Some (RString _, _) \<Rightarrow> (Inl WrongType, ks))"
| "run_command now (MGET keys) ks =
     (Inr (Values (map (\<lambda>k. case live now ks k of Some (RString s, _) \<Rightarrow> Some s | _ \<Rightarrow> None) keys)), ks)"

text \<open>
  The connection: \<open>fails n\<close> tells whether the \<open>n\<close>-th round trip of this client is lost
  (the promise then rejects and the server state is as before); \<open>issued\<close> counts the round
  trips so far. A store that is down is \<open>fails = (\<lambda>_. True)\<close>.
\<close>

record redis =
  keyspace :: keyspace
  fails :: "nat \<Rightarrow> bool"
  issued :: nat

definition send :: "int \<Rightarrow> command \<Rightarrow> (redis, reply) action" where
  "send now cmd r =
     (if fails r (issued r) then (Inl (StoreError ''connection lost''), r\<lparr>issued := Suc (issued r)\<rparr>)
      else (case run_command now cmd (keyspace r) of
              (res, ks') \<Rightarrow> (res, r\<lparr>keyspace := ks', issued := Suc (issued r)\<rparr>)))"

text \<open>
  \<open>pipeline().exec()\<close> is one round trip; the reply of each queued command, an error
  reply included, comes back in the result array, which no caller here reads.
\<close>

definition exec :: "int \<Rightarrow> command list \<Rightarrow> (redis, unit) action" where
  "exec now cmds r =
     (if fails r (issued r) then (Inl (StoreError ''connection lost''), r\<lparr>issued := Suc (issued r)\<rparr>)
      else (Inr (), r\<lparr>keyspace := fold (\<lambda>cmd ks. snd (run_command now cmd ks)) cmds (keyspace r),
                      issued := Suc (issued r)\<rparr>))"

definition redis_get :: "int \<Rightarrow> string \<Rightarrow> (redis, string option) action" where
  "redis_get now k = await (send now (GET k)) (\<lambda>rep. ret (case rep of Bulk s \<Rightarrow> Some s | _ \<Rightarrow> None))"

definition redis_set :: "int \<Rightarrow> string \<Rightarrow> string \<Rightarrow> (redis, unit) action" where
  "redis_set now k v = await (send now (SET k v)) (\<lambda>_. ret ())"

definition redis_setex :: "int \<Rightarrow> string \<Rightarrow> int \<Rightarrow> string \<Rightarrow> (redis, unit) action" where
  "redis_setex now k seconds v = await (send now (SETEX k seconds v)) (\<lambda>_. ret ())"

definition redis_expire :: "int \<Rightarrow> string \<Rightarrow> int \<Rightarrow> (redis, unit) action" where
  "redis_expire now k seconds = await (send now (EXPIRE k seconds)) (\<lambda>_. ret ())"

definition redis_del :: "int \<Rightarrow> string list \<Rightarrow> (redis, unit) action" where
  "redis_del now keys = await (send now (DEL keys)) (\<lambda>_. ret ())"

definition redis_incr :: "int \<Rightarrow> string \<Rightarrow> (redis, unit) action" where
  "redis_incr now k = await (send now (INCR k)) (\<lambda>_. ret ())"

definition redis_sadd :: "int \<Rightarrow> string \<Rightarrow> string \<Rightarrow> (redis, unit) action" where
  "redis_sadd now k m = await (send now (SADD k m)) (\<lambda>_. ret ())"

definition redis_srem :: "int \<Rightarrow> string \<Rightarrow> string \<Rightarrow> (redis, unit) action" where
  "redis_srem now k m = await (send now (SREM k m)) (\<lambda>_. ret ())"

definition redis_smembers :: "int \<Rightarrow> string \<Rightarrow> (redis, string list) action" where
  "redis_smembers now k =
     await (send now (SMEMBERS k)) (\<lambda>rep. ret (case rep of Members ms \<Rightarrow> ms | _ \<Rightarrow> []))"

definition redis_mget :: "int \<Rightarrow> string list \<Rightarrow> (redis, string option list) action" where
  "redis_mget now keys =
     await (send now (MGET keys)) (\<lambda>rep. ret (case rep of Values vs \<Rightarrow> vs | _ \<Rightarrow> []))"

text \<open>A store none of whose round trips is lost.\<close>

definition healthy :: "redis \<Rightarrow> bool" where
  "healthy r = (\<forall>n. \<not> fails r n)"

text \<open>The keys a command names: it reads and writes no other.\<close>

fun command_keys :: "command \<Rightarrow> string set" where
  "command_keys (GET k) = {k}"
| "command_keys (SET k v) = {k}"
| "command_keys (SETEX k seconds v) = {k}"
| "command_keys (EXPIRE k seconds) = {k}"
| "command_keys (DEL keys) = set keys"
| "command_keys (INCR k) = {k}"
| "command_keys (SADD k m) = {k}"
| "command_keys (SREM k m) = {k}"
| "command_keys (SMEMBERS k) = {k}"
| "command_keys (MGET keys) = set keys"


section \<open>CircuitBreaker (circuit-breaker.ts)\<close>

datatype cb_state = Closed | Open | HalfOpen

record CircuitBreaker =
  state :: cb_state
  failures :: int
  nextAttempt :: int
  halfOpenSuccesses :: int
  threshold :: int
  timeout :: int
  halfOpenRequests :: int

text \<open>The constructor: an argument that is \<open>undefined\<close> takes its default.\<close>

definition new_CircuitBreaker :: "int option \<Rightarrow> int option \<Rightarrow> int option \<Rightarrow> CircuitBreaker" where
  "new_CircuitBreaker th tm hr =
     \<lparr> state = Closed, failures = 0, nextAttempt = 0, halfOpenSuccesses = 0,
       threshold = (case th of None \<Rightarrow> 5 | Some n \<Rightarrow> n),
       timeout = (case tm of None \<Rightarrow> 30000 | Some n \<Rightarrow> n),
       halfOpenRequests = (case hr of None \<Rightarrow> 3 | Some n \<Rightarrow> n) \<rparr>"

definition onSuccess :: "CircuitBreaker \<Rightarrow> CircuitBreaker" where
  "onSuccess cb =
     (if state cb = HalfOpen then
        (let cb1 = cb\<lparr>halfOpenSuccesses := halfOpenSuccesses cb + 1\<rparr> in
         if halfOpenSuccesses cb1 \<ge> halfOpenRequests cb1
         then cb1\<lparr>state := Closed, failures := 0\<rparr>
         else cb1)
      else cb\<lparr>failures := 0\<rparr>)"

text \<open>\<open>now\<close> is the value of \<open>Date.now()\<close> read inside \<open>onFailure\<close>.\<close>

definition onFailure :: "int \<Rightarrow> CircuitBreaker \<Rightarrow> CircuitBreaker" where
  "onFailure now cb =
     (let cb1 = cb\<lparr>failures := failures cb + 1\<rparr> in
      if failures cb1 \<ge> threshold cb1
      then cb1\<lparr>state := Open, nextAttempt := now + timeout cb1\<rparr>
      else cb1)"

text \<open>
  \<open>execute\<close> suspends at \<open>await fn()\<close>: what it does before (lines 27 to 34) and what it does
  once the primary has settled (\<open>onSuccess\<close> or \<open>onFailure\<close>, on the breaker as it is by
  then) are two steps, and other calls may run between them. \<open>admit now\<close> is the first step,
  \<open>now\<close> being \<open>Date.now()\<close> there: \<open>False\<close> when the call goes to the fallback at once.
\<close>

definition admit :: "int \<Rightarrow> CircuitBreaker \<Rightarrow> bool \<times> CircuitBreaker" where
  "admit now cb =
     (if state cb = Open then
        (if now < nextAttempt cb then (False, cb)
         else (True, cb\<lparr>state := HalfOpen, halfOpenSuccesses := 0\<rparr>))
      else (True, cb))"

text \<open>
  \<open>execute now now' onError fn fallback\<close>: \<open>now'\<close> is the later reading of the clock taken by
  \<open>onFailure\<close>. The primary \<open>fn\<close> and the \<open>fallback\<close> act on the breaker together with the rest
  of the process state \<open>'s\<close>, so that what other calls did to the breaker while \<open>fn\<close> was in
  flight is there when \<open>fn\<close> settles; they return a value or throw. \<open>onError\<close> is the handler
  installed by \<open>setErrorHandler\<close> (it may throw itself, and then \<open>execute\<close> rejects).
\<close>

definition execute ::
  "int \<Rightarrow> int \<Rightarrow> (error \<Rightarrow> (CircuitBreaker \<times> 's, unit) action) option \<Rightarrow>
   (CircuitBreaker \<times> 's, 'a) action \<Rightarrow> (CircuitBreaker \<times> 's, 'a) action \<Rightarrow>
   (CircuitBreaker \<times> 's, 'a) action" where
  "execute now now' onError fn fallback = (\<lambda>(cb, s).
     case admit now cb of
       (False, cb1) \<Rightarrow> fallback (cb1, s)
     | (True, cb1) \<Rightarrow>
         (case fn (cb1, s) of
            (Inr result, (cb2, s1)) \<Rightarrow> (Inr result, (onSuccess cb2, s1))
          | (Inl err, (cb2, s1)) \<Rightarrow>
              (case (case onError of
                       Some handler \<Rightarrow>
                         (if instanceof_Error err then handler err (onFailure now' cb2, s1)
                          else (Inr (), (onFailure now' cb2, s1)))
                     | None \<Rightarrow> (Inr (), (onFailure now' cb2, s1))) of
                 (Inl thrown, st) \<Rightarrow> (Inl thrown, st)
               | (Inr _, st) \<Rightarrow> fallback st)))"

text \<open>An action on the rest of the process state, which leaves the breaker alone.\<close>

definition beside :: "('s, 'a) action \<Rightarrow> (CircuitBreaker \<times> 's, 'a) action" where
  "beside m = (\<lambda>(cb, s). case m s of (r, s') \<Rightarrow> (r, (cb, s')))"

text \<open>
  A sequence of awaited calls, as the unit tests of the breaker make them: each call is
  \<open>(now, now', ok)\<close>, where \<open>ok\<close> tells whether the primary succeeds when it is attempted. The
  process state is the number of times the primary has been attempted.
\<close>

definition attempt :: "bool \<Rightarrow> nat \<Rightarrow> (error + string) \<times> nat" where
  "attempt ok n = (if ok then Inr ''success'' else Inl (StoreError ''failure''), Suc n)"

definition use_fallback :: "nat \<Rightarrow> (error + string) \<times> nat" where
  "use_fallback n = (Inr ''fallback'', n)"

definition call :: "int \<times> int \<times> bool \<Rightarrow> CircuitBreaker \<times> nat \<Rightarrow> CircuitBreaker \<times> nat" where
  "call c s =
     (case c of (now, now', ok) \<Rightarrow>
        snd (execute now now' None (beside (attempt ok)) (beside use_fallback) s))"

fun calls :: "(int \<times> int \<times> bool) list \<Rightarrow> CircuitBreaker \<times> nat \<Rightarrow> CircuitBreaker \<times> nat" where
  "calls [] s = s"
| "calls (c # cs) s = calls cs (call c s)"

definition failing :: "(int \<times> int) list \<Rightarrow> (int \<times> int \<times> bool) list" where
  "failing ts = map (\<lambda>(now, now'). (now, now', False)) ts"

definition succeeding :: "(int \<times> int) list \<Rightarrow> (int \<times> int \<times> bool) list" where
  "succeeding ts = map (\<lambda>(now, now'). (now, now', True)) ts"

text \<open>
  What holds of the breaker between awaited calls: the failure count is not negative, and
  the breaker is closed as long as the count is below the threshold.
\<close>

definition cb_inv :: "CircuitBreaker \<Rightarrow> bool" where
  "cb_inv cb = (0 \<le> failures cb \<and> (state cb \<noteq> Closed \<longrightarrow> threshold cb \<le> failures cb))"

text \<open>
  Calls that overlap. A call is in flight from the moment its primary was started until
  the primary settles; the steps of several calls interleave in any order. \<open>Enter now\<close> is
  a call of \<open>execute\<close> up to its \<open>await\<close>, \<open>Resolve\<close> and \<open>Reject now'\<close> are the settlement of
  the primary of one call in flight (any of them: the breaker keeps no record of which).
  The fallback does not touch the breaker. The state is the breaker and the number of
  calls in flight.
\<close>

datatype cb_step = Enter int | Resolve | Reject int

fun step :: "cb_step \<Rightarrow> CircuitBreaker \<times> nat \<Rightarrow> CircuitBreaker \<times> nat" where
  "step (Enter now) (cb, inflight) =
     (case admit now cb of
        (True, cb1) \<Rightarrow> (cb1, Suc inflight)
      | (False, cb1) \<Rightarrow> (cb1, inflight))"
| "step Resolve (cb, inflight) =
     (if inflight = 0 then (cb, inflight) else (onSuccess cb, inflight - 1))"
| "step (Reject now') (cb, inflight) =
     (if inflight = 0 then (cb, inflight) else (onFailure now' cb, inflight - 1))"

definition steps :: "cb_step list \<Rightarrow> CircuitBreaker \<times> nat \<Rightarrow> CircuitBreaker \<times> nat" where
  "steps evs s = fold step evs s"

section \<open>Serializer (serializer.ts)\<close>

text \<open>
  The codec is pluggable (\<open>createSerializer\<close> accepts any object with these two functions);
  either function may throw.
\<close>

record Serializer =
  serialize :: "jsval \<Rightarrow> error + string"
  deserialize :: "string \<Rightarrow> error + jsval"

section \<open>LocalCache (local-cache.ts)\<close>

text \<open>
  The wrapper around the \<open>lru-cache\<close> package: a bounded list of entries, oldest first,
  each with the time (in milliseconds) after which it is stale. \<open>lru_ttl\<close> is the default
  lifetime the constructor was given, already in milliseconds.
\<close>

record LocalCache =
  lru_entries :: "(string \<times> jsval \<times> int option) list"
  lru_max :: nat
  lru_ttl :: "int option"

definition new_LocalCache :: "nat option \<Rightarrow> int option \<Rightarrow> LocalCache" where
  "new_LocalCache maxSize ttl =
     \<lparr> lru_entries = [],
       lru_max = (case maxSize of Some n \<Rightarrow> (if n = 0 then 1000 else n) | None \<Rightarrow> 1000),
       lru_ttl = (case ttl of Some t \<Rightarrow> (if t \<noteq> 0 then Some (t * 1000) else None) | None \<Rightarrow> None) \<rparr>"

definition LocalCache_delete :: "string \<Rightarrow> LocalCache \<Rightarrow> LocalCache" where
  "LocalCache_delete k lc = lc\<lparr>lru_entries := filter (\<lambda>e. fst e \<noteq> k) (lru_entries lc)\<rparr>"

text \<open>
  \<open>get\<close> of \<open>lru-cache\<close>: an entry found stale is deleted and \<open>undefined\<close> returned; a live
  entry becomes the most recently used (its age stays: \<open>updateAgeOnGet\<close> is \<open>false\<close>).
\<close>

definition LocalCache_get :: "int \<Rightarrow> string \<Rightarrow> LocalCache \<Rightarrow> jsval option \<times> LocalCache" where
  "LocalCache_get now k lc =
     (case map_of (lru_entries lc) k of
        None \<Rightarrow> (None, lc)
      | Some (v, deadline) \<Rightarrow>
          (if (case deadline of Some d \<Rightarrow> d < now | None \<Rightarrow> False)
           then (None, LocalCache_delete k lc)
           else (Some v, lc\<lparr>lru_entries :=
                   filter (\<lambda>e. fst e \<noteq> k) (lru_entries lc) @ [(k, v, deadline)]\<rparr>)))"

text \<open>\<open>set(key, value, ttl)\<close> with \<open>ttl\<close> in seconds; without one the default lifetime applies.\<close>

definition LocalCache_set :: "int \<Rightarrow> string \<Rightarrow> jsval \<Rightarrow> int option \<Rightarrow> LocalCache \<Rightarrow> LocalCache" where
  "LocalCache_set now k v ttl lc =
     (if v = JUndefined then LocalCache_delete k lc
      else
        (let life = (case ttl of Some t \<Rightarrow> (if t \<noteq> 0 then Some (t * 1000) else lru_ttl lc)
                                | None \<Rightarrow> lru_ttl lc);
             es = filter (\<lambda>e. fst e \<noteq> k) (lru_entries lc) @ [(k, v, map_option (\<lambda>t. now + t) life)]
         in lc\<lparr>lru_entries := (if lru_max lc < length es then tl es else es)\<rparr>))"

definition LocalCache_deleteByTag :: "string \<Rightarrow> string list \<Rightarrow> LocalCache \<Rightarrow> LocalCache" where
  "LocalCache_deleteByTag tag keys lc = fold LocalCache_delete keys lc"

section \<open>Events (types/events.ts) and the process state\<close>

datatype event =
    HitEvent string string
  | MissEvent string
  | SetEvent string "int option" nat
  | InvalidateKeyEvent string
  | InvalidateTagEvent string "string list"
  | InvalidatePatternEvent string "string list"
  | InvalidateKeysEvent "string list"
  | ErrorEvent error

datatype message =
    KeyInvalidation string
  | TagInvalidation string "string list"
  | PatternInvalidation string "string list"

datatype mode = Server | Serverless

text \<open>
  What a \<open>CacheImpl\<close> is constructed with and never changes: the key prefix, the mode, the
  codec, and whether pub/sub was set up (server mode, unless disabled). A \<open>VersionedCache\<close>
  exists exactly in serverless mode.
\<close>

record CacheImpl =
  prefix :: string
  mode :: mode
  serializer :: Serializer
  pubsub :: bool

text \<open>
  What changes while the process runs. \<open>pending\<close> is the map of the \<open>Deduplicator\<close>: a
  registered promise is represented by what awaiting it yields. \<open>error_listener\<close> tells
  whether a listener for the \<open>error\<close> event is registered; \<open>emitted\<close> and \<open>published\<close>
  record the events emitted and the messages published; \<open>fetches\<close> counts the invocations
  of fetch functions; \<open>revalidating\<close> holds the background revalidations that were
  scheduled and have not run yet.
\<close>

record 'args world =
  redis :: redis
  localCache :: "LocalCache option"
  circuitBreaker :: CircuitBreaker
  pending :: "string \<rightharpoonup> (error + jsval)"
  error_listener :: bool
  emitted :: "event list"
  published :: "message list"
  fetches :: nat
  revalidating :: "'args list"

definition on_redis :: "(redis, 'a) action \<Rightarrow> ('args world, 'a) action" where
  "on_redis m w = (case m (redis w) of (res, r') \<Rightarrow> (res, w\<lparr>redis := r'\<rparr>))"

text \<open>
  \<open>EventEmitter.emit\<close>: an \<open>error\<close> event emitted while no listener for it is registered is
  thrown (the payload here is a plain object, so Node throws \<open>ERR_UNHANDLED_ERROR\<close>).
\<close>

definition emit :: "event \<Rightarrow> ('args world, unit) action" where
  "emit ev w =
     (case ev of
        ErrorEvent _ \<Rightarrow>
          (if error_listener w then (Inr (), w\<lparr>emitted := emitted w @ [ev]\<rparr>)
           else (Inl UnhandledError, w))
      | _ \<Rightarrow> (Inr (), w\<lparr>emitted := emitted w @ [ev]\<rparr>))"

definition publish :: "message \<Rightarrow> ('args world, unit) action" where
  "publish msg w = (Inr (), w\<lparr>published := published w @ [msg]\<rparr>)"


section \<open>Key builder (utils/key-builder.ts)\<close>

definition buildCacheKey :: "string \<Rightarrow> string \<Rightarrow> string \<Rightarrow> string" where
  "buildCacheKey pfx name k = pfx @ '':'' @ name @ '':'' @ k"

text \<open>A string read back from the store, when it is neither \<open>null\<close> nor empty (\<open>if (cached)\<close>).\<close>

fun nonempty :: "string option \<Rightarrow> string option" where
  "nonempty (Some s) = (if s = [] then None else Some s)"
| "nonempty None = None"

text \<open>A synchronous computation that may throw, inside an \<open>async\<close> function.\<close>

definition attempted :: "error + 'a \<Rightarrow> ('w, 'a) action" where
  "attempted r = (\<lambda>w. (r, w))"

definition num_truthy :: "int option \<Rightarrow> bool" where
  "num_truthy n = (case n of Some i \<Rightarrow> i \<noteq> 0 | None \<Rightarrow> False)"

section \<open>VersionedCache (versioned-cache.ts)\<close>

definition versionKey :: "string \<Rightarrow> string \<Rightarrow> string" where
  "versionKey pfx k = pfx @ '':version:'' @ k"

definition versionedKey :: "string \<Rightarrow> string \<Rightarrow> string \<Rightarrow> string" where
  "versionedKey pfx k version = pfx @ '':'' @ k @ '':v'' @ version"

definition VersionedCache_get :: "int \<Rightarrow> CacheImpl \<Rightarrow> string \<Rightarrow> ('args world, jsval) action" where
  "VersionedCache_get now env k =
     await (on_redis (redis_get now (versionKey (prefix env) k))) (\<lambda>v.
       let version = (case nonempty v of Some s \<Rightarrow> s | None \<Rightarrow> ''0'') in
       await (on_redis (redis_get now (versionedKey (prefix env) k version))) (\<lambda>cached.
         case nonempty cached of
           None \<Rightarrow> ret JNull
         | Some s \<Rightarrow> attempted (deserialize (serializer env) s)))"

definition VersionedCache_set ::
  "int \<Rightarrow> CacheImpl \<Rightarrow> string \<Rightarrow> jsval \<Rightarrow> int option \<Rightarrow> ('args world, unit) action" where
  "VersionedCache_set now env k v ttl =
     await (on_redis (redis_get now (versionKey (prefix env) k))) (\<lambda>found.
       await (case nonempty found of
                Some s \<Rightarrow> ret s
              | None \<Rightarrow>
                  await (on_redis (redis_set now (versionKey (prefix env) k) ''0'')) (\<lambda>_.
                  await (on_redis (redis_expire now (versionKey (prefix env) k) 86400)) (\<lambda>_.
                  ret ''0''))) (\<lambda>version.
       await (attempted (serialize (serializer env) v)) (\<lambda>serialized.
         case ttl of
           Some seconds \<Rightarrow>
             (if seconds \<noteq> 0
              then on_redis (redis_setex now (versionedKey (prefix env) k version) seconds serialized)
              else on_redis (redis_set now (versionedKey (prefix env) k version) serialized))
         | None \<Rightarrow> on_redis (redis_set now (versionedKey (prefix env) k version) serialized))))"

definition VersionedCache_invalidate :: "int \<Rightarrow> CacheImpl \<Rightarrow> string \<Rightarrow> ('args world, unit) action" where
  "VersionedCache_invalidate now env k =
     await (on_redis (redis_incr now (versionKey (prefix env) k))) (\<lambda>_.
       on_redis (redis_expire now (versionKey (prefix env) k) 86400))"

definition VersionedCache_invalidateMany ::
  "int \<Rightarrow> CacheImpl \<Rightarrow> string list \<Rightarrow> ('args world, unit) action" where
  "VersionedCache_invalidateMany now env keys =
     on_redis (exec now (concat (map (\<lambda>k. [INCR (versionKey (prefix env) k),
                                             EXPIRE (versionKey (prefix env) k) 86400]) keys)))"

section \<open>TagManager (tag-manager.ts)\<close>

definition tagKey :: "string \<Rightarrow> string \<Rightarrow> string" where
  "tagKey pfx tag = pfx @ '':tag:'' @ tag"

definition addTags :: "int \<Rightarrow> CacheImpl \<Rightarrow> string \<Rightarrow> string list \<Rightarrow> ('args world, unit) action" where
  "addTags now env k tags =
     (if tags = [] then ret ()
      else on_redis (exec now (map (\<lambda>tag. SADD (tagKey (prefix env) tag) k) tags)))"

definition getKeysByTag :: "int \<Rightarrow> CacheImpl \<Rightarrow> string \<Rightarrow> ('args world, string list) action" where
  "getKeysByTag now env tag = on_redis (redis_smembers now (tagKey (prefix env) tag))"

definition removeTags :: "int \<Rightarrow> CacheImpl \<Rightarrow> string \<Rightarrow> string list \<Rightarrow> ('args world, unit) action" where
  "removeTags now env k tags =
     (if tags = [] then ret ()
      else on_redis (exec now (map (\<lambda>tag. SREM (tagKey (prefix env) tag) k) tags)))"

definition deleteTag :: "int \<Rightarrow> CacheImpl \<Rightarrow> string \<Rightarrow> ('args world, unit) action" where
  "deleteTag now env tag = on_redis (redis_del now [tagKey (prefix env) tag])"

section \<open>PatternMatcher (pattern-matcher.ts)\<close>

definition patternKey :: "string \<Rightarrow> string \<Rightarrow> string" where
  "patternKey pfx pattern = pfx @ '':pattern:'' @ pattern"

definition trackKey :: "int \<Rightarrow> CacheImpl \<Rightarrow> string \<Rightarrow> ('args world, unit) action" where
  "trackKey now env k =
     (let parts = split CHR '':'' k in
      if length parts < 3 then ret ()
      else on_redis (redis_sadd now (patternKey (prefix env) (parts ! 1)) k))"

definition removeKey :: "int \<Rightarrow> CacheImpl \<Rightarrow> string \<Rightarrow> ('args world, unit) action" where
  "removeKey now env k =
     (let parts = split CHR '':'' k in
      if length parts < 3 then ret ()
      else on_redis (redis_srem now (patternKey (prefix env) (parts ! 1)) k))"

text \<open>
  The characters that \<open>.\<close> does not match in a regular expression without the \<open>s\<close> flag.
  Strings here are made of 8-bit code units, among which these are the line feed and the
  carriage return.
\<close>

definition line_terminator :: "char \<Rightarrow> bool" where
  "line_terminator c = (c = CHR 0x0A \<or> c = CHR 0x0D)"

text \<open>
  \<open>pattern.replace(/:\*.*$/, '')\<close>: the leftmost \<open>:*\<close> that only characters matched by \<open>.\<close>
  follow is cut off together with what follows it; without one the pattern stays as it is.
\<close>

fun cut_colon_star :: "string \<Rightarrow> string" where
  "cut_colon_star [] = []"
| "cut_colon_star (c # rest) =
     (if c = CHR '':'' \<and> (case rest of [] \<Rightarrow> False
                                     | x # after \<Rightarrow> x = CHR ''*'' \<and> \<not> list_ex line_terminator after)
      then []
      else c # cut_colon_star rest)"

text \<open>
  \<open>patternToRegex\<close> escapes every character that is special in a regular expression but
  \<open>*\<close>, replaces each \<open>*\<close> by \<open>.*\<close> and anchors the result at both ends: the expression is
  a sequence of literal characters and of \<open>.*\<close>.
\<close>

datatype atom = Literal char | AnyRun

definition patternToRegex :: "string \<Rightarrow> atom list" where
  "patternToRegex pattern = map (\<lambda>c. if c = CHR ''*'' then AnyRun else Literal c) pattern"

fun regex_test :: "atom list \<Rightarrow> string \<Rightarrow> bool" where
  "regex_test [] s = (s = [])"
| "regex_test (Literal c # r) s = (case s of [] \<Rightarrow> False | x # xs \<Rightarrow> x = c \<and> regex_test r xs)"
| "regex_test (AnyRun # r) s =
     (regex_test r s \<or>
      (case s of [] \<Rightarrow> False | x # xs \<Rightarrow> \<not> line_terminator x \<and> regex_test (AnyRun # r) xs))"

definition getKeysByPattern :: "int \<Rightarrow> CacheImpl \<Rightarrow> string \<Rightarrow> ('args world, string list) action" where
  "getKeysByPattern now env pattern =
     (let base = cut_colon_star pattern in
      await (on_redis (redis_smembers now (patternKey (prefix env) base))) (\<lambda>keys.
        if CHR ''*'' \<in> set pattern
        then ret (filter (regex_test (patternToRegex (prefix env @ '':'' @ pattern))) keys)
        else ret keys))"


section \<open>CacheDefinitionImpl (definition.ts)\<close>

text \<open>\<open>TTLValue\<close>: a number of seconds, \<open>false\<close>, a function of the data, or \<open>{duration, sliding?}\<close>.\<close>

datatype TTLValue =
    TTLNumber int
  | TTLFalse
  | TTLFunction "jsval \<Rightarrow> int"
  | TTLConfig int "bool option"

text \<open>
  The fetch function is the caller's: its outcome may differ from one invocation to the
  next, so it is given the number of invocations made before.
\<close>

record 'args CacheDefinitionConfig =
  config_name :: string
  config_key :: "'args \<Rightarrow> string"
  config_fetch :: "('args \<Rightarrow> nat \<Rightarrow> error + jsval) option"
  config_tags :: "('args \<Rightarrow> string list) option"
  config_ttl :: "TTLValue option"
  config_staleWhileRevalidate :: "int option"
  config_dedupe :: "bool option"
  config_invalidates :: "('args \<Rightarrow> string list) option"

definition buildKey :: "CacheImpl \<Rightarrow> 'args CacheDefinitionConfig \<Rightarrow> 'args \<Rightarrow> string" where
  "buildKey env cfg args = buildCacheKey (prefix env) (config_name cfg) (config_key cfg args)"

definition getTTL :: "'args CacheDefinitionConfig \<Rightarrow> jsval option \<Rightarrow> int option" where
  "getTTL cfg v =
     (case config_ttl cfg of
        None \<Rightarrow> None
      | Some TTLFalse \<Rightarrow> None
      | Some (TTLNumber n) \<Rightarrow> (if n = 0 then None else Some n)
      | Some (TTLFunction f) \<Rightarrow>
          (case v of Some d \<Rightarrow> (if truthy d then Some (f d) else None) | None \<Rightarrow> None)
      | Some (TTLConfig duration sliding) \<Rightarrow> Some duration)"

definition isSliding :: "'args CacheDefinitionConfig \<Rightarrow> bool" where
  "isSliding cfg = (case config_ttl cfg of Some (TTLConfig duration (Some True)) \<Rightarrow> True | _ \<Rightarrow> False)"

definition resetTTL ::
  "int \<Rightarrow> 'args CacheDefinitionConfig \<Rightarrow> string \<Rightarrow> jsval option \<Rightarrow> ('args world, unit) action" where
  "resetTTL now cfg k v =
     (case getTTL cfg v of
        Some seconds \<Rightarrow>
          (if seconds \<noteq> 0 \<and> isSliding cfg then on_redis (redis_expire now k seconds) else ret ())
      | None \<Rightarrow> ret ())"

record unwrapped =
  data :: jsval
  isStale :: bool
  isPastStale :: bool

definition unwrapValue :: "string_comparison \<Rightarrow> int \<Rightarrow> jsval \<Rightarrow> unwrapped" where
  "unwrapValue gt now v =
     (if truthy v \<and> typeof_object v \<and> has_property ''data'' v \<and> has_property ''expiresAt'' v
      then \<lparr> data = property v ''data'',
             isStale = (if truthy (property v ''expiresAt'')
                        then js_gt gt now (property v ''expiresAt'') else False),
             isPastStale = (if truthy (property v ''staleUntil'')
                            then js_gt gt now (property v ''staleUntil'') else False) \<rparr>
      else \<lparr> data = v, isStale = False, isPastStale = False \<rparr>)"

text \<open>One invocation of \<open>config.fetch\<close>, which must be configured.\<close>

definition invoke_fetch :: "'args CacheDefinitionConfig \<Rightarrow> 'args \<Rightarrow> ('args world, jsval) action" where
  "invoke_fetch cfg args w =
     (case config_fetch cfg of
        Some f \<Rightarrow> (f args (fetches w), w\<lparr>fetches := Suc (fetches w)\<rparr>)
      | None \<Rightarrow> (Inr JNull, w))"

text \<open>
  \<open>Deduplicator.run\<close> (deduplicator.ts), for a call that is awaited: a pending promise is
  returned as it is; otherwise \<open>fn\<close> runs, and once it has settled the registration made
  for the time of its flight is deleted.
\<close>

definition Deduplicator_run :: "string \<Rightarrow> ('args world, jsval) action \<Rightarrow> ('args world, jsval) action" where
  "Deduplicator_run k fn w =
     (case pending w k of
        Some existing \<Rightarrow> (existing, w)
      | None \<Rightarrow> (case fn w of (r, w') \<Rightarrow> (r, w'\<lparr>pending := (pending w')(k := None)\<rparr>)))"

text \<open>
  The value \<open>set\<close> writes and the expiry it writes it with (the first lines of \<open>set\<close>):
  with stale-while-revalidate configured and a TTL, the data wrapped with its two
  timestamps, kept for both periods.
\<close>

definition wrapped_value :: "int \<Rightarrow> 'args CacheDefinitionConfig \<Rightarrow> jsval \<Rightarrow> jsval \<times> int option" where
  "wrapped_value now cfg v =
     (let ttl = getTTL cfg (Some v) in
      case (config_staleWhileRevalidate cfg, ttl) of
        (Some swr, Some seconds) \<Rightarrow>
          (if swr \<noteq> 0 \<and> seconds \<noteq> 0
           then (JObj [(''data'', v),
                       (''expiresAt'', JNum (now + seconds * 1000)),
                       (''staleUntil'', JNum (now + (seconds + swr) * 1000))],
                 Some (seconds + swr))
           else (v, ttl))
      | _ \<Rightarrow> (v, ttl))"

definition set_value ::
  "int \<Rightarrow> 'args CacheDefinitionConfig \<Rightarrow> CacheImpl \<Rightarrow> 'args \<Rightarrow> jsval \<Rightarrow> ('args world, unit) action" where
  "set_value now cfg env args v =
     (let k = buildKey env cfg args;
          ttl = getTTL cfg (Some v);
          valueToStore = fst (wrapped_value now cfg v);
          storeTTL = snd (wrapped_value now cfg v) in
      await (attempted (serialize (serializer env) valueToStore)) (\<lambda>serialized.
      await (if mode env = Serverless
             then VersionedCache_set now env k valueToStore storeTTL
             else
               await (if num_truthy storeTTL
                      then on_redis (redis_setex now k (case storeTTL of Some t \<Rightarrow> t | None \<Rightarrow> 0) serialized)
                      else on_redis (redis_set now k serialized)) (\<lambda>_.
               (\<lambda>w. (Inr (), w\<lparr>localCache := map_option (LocalCache_set now k valueToStore storeTTL)
                                                            (localCache w)\<rparr>)))) (\<lambda>_.
      await (trackKey now env k) (\<lambda>_.
      await (case config_tags cfg of
               Some tags \<Rightarrow> addTags now env k (tags args)
             | None \<Rightarrow> ret ()) (\<lambda>_.
      emit (SetEvent k ttl (length serialized)))))))"

definition fetchAndCache ::
  "int \<Rightarrow> 'args CacheDefinitionConfig \<Rightarrow> CacheImpl \<Rightarrow> 'args \<Rightarrow> ('args world, jsval) action" where
  "fetchAndCache now cfg env args =
     (if config_fetch cfg = None then ret JNull
      else
        await (invoke_fetch cfg args) (\<lambda>fetched.
        await (if \<not> nullish fetched then set_value now cfg env args fetched else ret ()) (\<lambda>_.
        ret fetched)))"

text \<open>
  \<open>Promise.resolve().then(async () => { try { await this.fetchAndCache(...args) } catch (e)
  {} })\<close> only schedules the revalidation: it runs after \<open>get\<close> has returned, and whatever it
  throws is dropped.
\<close>

definition schedule_revalidation :: "'args \<Rightarrow> ('args world, unit) action" where
  "schedule_revalidation args w = (Inr (), w\<lparr>revalidating := revalidating w @ [args]\<rparr>)"

definition run_revalidation ::
  "int \<Rightarrow> 'args CacheDefinitionConfig \<Rightarrow> CacheImpl \<Rightarrow> ('args world, unit) action" where
  "run_revalidation now cfg env w =
     (case revalidating w of
        [] \<Rightarrow> (Inr (), w)
      | args # rest \<Rightarrow>
          (case fetchAndCache now cfg env args (w\<lparr>revalidating := rest\<rparr>) of
             (_, w') \<Rightarrow> (Inr (), w')))"

text \<open>\<open>get\<close> in serverless mode (its first branch).\<close>

definition get_serverless ::
  "int \<Rightarrow> 'args CacheDefinitionConfig \<Rightarrow> CacheImpl \<Rightarrow> 'args \<Rightarrow> ('args world, jsval) action" where
  "get_serverless now cfg env args =
     (let k = buildKey env cfg args in
      await (VersionedCache_get now env k) (\<lambda>found.
        if truthy found then
          await (emit (HitEvent k ''redis'')) (\<lambda>_. ret found)
        else
          await (emit (MissEvent k)) (\<lambda>_.
            if config_fetch cfg \<noteq> None then
              await (invoke_fetch cfg args) (\<lambda>fetched.
              await (if \<not> nullish fetched then
                       (let ttl = getTTL cfg (Some fetched) in
                        await (VersionedCache_set now env k fetched ttl) (\<lambda>_.
                        await (trackKey now env k) (\<lambda>_.
                        await (case config_tags cfg of
                                 Some tags \<Rightarrow> addTags now env k (tags args)
                               | None \<Rightarrow> ret ()) (\<lambda>_.
                        await (attempted (serialize (serializer env) fetched)) (\<lambda>serialized.
                        emit (SetEvent k ttl (length serialized)))))))
                     else ret ()) (\<lambda>_.
              ret fetched))
            else ret JNull)))"

text \<open>
  The part of \<open>get\<close> that looks into the \<open>LocalCache\<close>: \<open>Some v\<close> when \<open>get\<close> returns \<open>v\<close> from
  there, \<open>None\<close> when it goes on to the store.
\<close>

definition get_local ::
  "string_comparison \<Rightarrow> int \<Rightarrow> 'args CacheDefinitionConfig \<Rightarrow> CacheImpl \<Rightarrow> 'args \<Rightarrow>
   ('args world, jsval option) action" where
  "get_local gt now cfg env args =
     (let k = buildKey env cfg args in
      (\<lambda>w. case localCache w of
         None \<Rightarrow> (Inr None, w)
       | Some lc \<Rightarrow>
           (case LocalCache_get now k lc of
              (None, lc1) \<Rightarrow> (Inr None, w\<lparr>localCache := Some lc1\<rparr>)
            | (Some cached, lc1) \<Rightarrow>
                (let u = unwrapValue gt now cached;
                     w1 = w\<lparr>localCache := Some lc1\<rparr> in
                 if isPastStale u then
                   (Inr None, w1\<lparr>localCache := Some (LocalCache_delete k lc1)\<rparr>)
                 else if isStale u \<and> config_fetch cfg \<noteq> None then
                   (await (schedule_revalidation args) (\<lambda>_.
                    await (emit (HitEvent k ''local'')) (\<lambda>_.
                    ret (Some (data u))))) w1
                 else
                   (await (if isSliding cfg then resetTTL now cfg k (Some (data u)) else ret ()) (\<lambda>_.
                    await (emit (HitEvent k ''local'')) (\<lambda>_.
                    ret (Some (data u))))) w1))))"

text \<open>The fetch of a miss: through the \<open>Deduplicator\<close> unless \<open>dedupe\<close> is \<open>false\<close>.\<close>

definition fetch_on_miss ::
  "int \<Rightarrow> 'args CacheDefinitionConfig \<Rightarrow> CacheImpl \<Rightarrow> 'args \<Rightarrow> ('args world, jsval) action" where
  "fetch_on_miss now cfg env args =
     (if config_fetch cfg \<noteq> None then
        (if config_dedupe cfg \<noteq> Some False
         then Deduplicator_run (buildKey env cfg args) (fetchAndCache now cfg env args)
         else fetchAndCache now cfg env args)
      else ret JNull)"

text \<open>The two functions \<open>get\<close> hands to the circuit breaker.\<close>

definition get_primary ::
  "string_comparison \<Rightarrow> int \<Rightarrow> 'args CacheDefinitionConfig \<Rightarrow> CacheImpl \<Rightarrow> 'args \<Rightarrow>
   ('args world, jsval) action" where
  "get_primary gt now cfg env args =
     (let k = buildKey env cfg args in
      await (on_redis (redis_get now k)) (\<lambda>cached.
        case nonempty cached of
          Some s \<Rightarrow>
            await (attempted (deserialize (serializer env) s)) (\<lambda>deserial.
              let u = unwrapValue gt now deserial in
              if isPastStale u then
                await (emit (MissEvent k)) (\<lambda>_. fetch_on_miss now cfg env args)
              else if isStale u \<and> config_fetch cfg \<noteq> None then
                await (schedule_revalidation args) (\<lambda>_.
                await (emit (HitEvent k ''redis'')) (\<lambda>_.
                ret (data u)))
              else
                await (\<lambda>w. (Inr (),
                        if truthy (data u)
                        then w\<lparr>localCache := map_option
                                 (LocalCache_set now k deserial (getTTL cfg (Some (data u)))) (localCache w)\<rparr>
                        else w)) (\<lambda>_.
                await (resetTTL now cfg k (Some (data u))) (\<lambda>_.
                await (emit (HitEvent k ''redis'')) (\<lambda>_.
                ret (data u)))))
        | None \<Rightarrow>
            await (emit (MissEvent k)) (\<lambda>_. fetch_on_miss now cfg env args)))"

definition get_fallback ::
  "int \<Rightarrow> 'args CacheDefinitionConfig \<Rightarrow> CacheImpl \<Rightarrow> 'args \<Rightarrow> ('args world, jsval) action" where
  "get_fallback now cfg env args =
     (if config_fetch cfg \<noteq> None then fetchAndCache now cfg env args else ret JNull)"

text \<open>
  \<open>this.circuitBreaker.execute(fn, fallback)\<close> on the breaker of the process, whose error
  handler (installed by the constructor of \<open>CacheImpl\<close>) emits the \<open>error\<close> event.
\<close>

definition with_breaker :: "('args world, 'a) action \<Rightarrow> (CircuitBreaker \<times> 'args world, 'a) action" where
  "with_breaker m = (\<lambda>(cb, w).
     case m (w\<lparr>circuitBreaker := cb\<rparr>) of (r, w') \<Rightarrow> (r, (circuitBreaker w', w')))"

definition through_breaker ::
  "int \<Rightarrow> ('args world, 'a) action \<Rightarrow> ('args world, 'a) action \<Rightarrow> ('args world, 'a) action" where
  "through_breaker now fn fallback w =
     (case execute now now (Some (\<lambda>err. with_breaker (emit (ErrorEvent err))))
             (with_breaker fn) (with_breaker fallback) (circuitBreaker w, w) of
        (r, (cb, w')) \<Rightarrow> (r, w'\<lparr>circuitBreaker := cb\<rparr>))"

text \<open>
  \<open>get gt now\<close>: \<open>now\<close> is the reading of the clock during the call, \<open>gt\<close> the runtime's
  comparison of a number with a string.
\<close>

definition get ::
  "string_comparison \<Rightarrow> int \<Rightarrow> 'args CacheDefinitionConfig \<Rightarrow> CacheImpl \<Rightarrow> 'args \<Rightarrow>
   ('args world, jsval) action" where
  "get gt now cfg env args =
     (if mode env = Serverless then get_serverless now cfg env args
      else
        await (get_local gt now cfg env args) (\<lambda>local.
          case local of
            Some v \<Rightarrow> ret v
          | None \<Rightarrow>
              through_breaker now (get_primary gt now cfg env args) (get_fallback now cfg env args)))"

definition invalidate ::
  "int \<Rightarrow> 'args CacheDefinitionConfig \<Rightarrow> CacheImpl \<Rightarrow> 'args \<Rightarrow> ('args world, unit) action" where
  "invalidate now cfg env args =
     (let k = buildKey env cfg args in
      if mode env = Serverless then
        await (VersionedCache_invalidate now env k) (\<lambda>_. emit (InvalidateKeyEvent k))
      else
        await (on_redis (redis_del now [k])) (\<lambda>_.
        await (\<lambda>w. (Inr (), w\<lparr>localCache := map_option (LocalCache_delete k) (localCache w)\<rparr>)) (\<lambda>_.
        await (if pubsub env then publish (KeyInvalidation k) else ret ()) (\<lambda>_.
        await (removeKey now env k) (\<lambda>_.
        await (case config_tags cfg of
                 Some tags \<Rightarrow> removeTags now env k (tags args)
               | None \<Rightarrow> ret ()) (\<lambda>_.
        await (case config_invalidates cfg of
                 Some invalidates \<Rightarrow>
                   fold (\<lambda>k' m. await m (\<lambda>_.
                           await (on_redis (redis_del now [k'])) (\<lambda>_.
                           (\<lambda>w. (Inr (), w\<lparr>localCache := map_option (LocalCache_delete k') (localCache w)\<rparr>)))))
                        (invalidates args) (ret ())
               | None \<Rightarrow> ret ()) (\<lambda>_.
        emit (InvalidateKeyEvent k))))))))"

fun deserialize_all :: "Serializer \<Rightarrow> string option list \<Rightarrow> error + jsval list" where
  "deserialize_all s [] = Inr []"
| "deserialize_all s (v # vs) =
     (case (case nonempty v of Some x \<Rightarrow> deserialize s x | None \<Rightarrow> Inr JNull) of
        Inl e \<Rightarrow> Inl e
      | Inr d \<Rightarrow> (case deserialize_all s vs of Inl e \<Rightarrow> Inl e | Inr ds \<Rightarrow> Inr (d # ds)))"

definition getMany ::
  "int \<Rightarrow> 'args CacheDefinitionConfig \<Rightarrow> CacheImpl \<Rightarrow> 'args list \<Rightarrow> ('args world, jsval list) action" where
  "getMany now cfg env keys =
     (if keys = [] then ret []
      else
        (let fullKeys = map (buildKey env cfg) keys in
         await (on_redis (redis_mget now fullKeys)) (\<lambda>values.
         attempted (deserialize_all (serializer env) values))))"

text \<open>
  \<open>setMany\<close>. The first loop queues one \<open>SETEX\<close> or \<open>SET\<close> per entry on the pipeline and,
  entry by entry, tracks the key and adds its tags; then the pipeline is sent.
\<close>

fun queue_entries ::
  "int \<Rightarrow> 'args CacheDefinitionConfig \<Rightarrow> CacheImpl \<Rightarrow> ('args \<times> jsval) list \<Rightarrow> command list \<Rightarrow>
   ('args world, command list) action" where
  "queue_entries now cfg env [] pipeline = ret pipeline"
| "queue_entries now cfg env ((args, v) # entries) pipeline =
     (let k = buildKey env cfg args;
          ttl = getTTL cfg (Some v) in
      await (attempted (serialize (serializer env) v)) (\<lambda>serialized.
      await (trackKey now env k) (\<lambda>_.
      await (case config_tags cfg of
               Some tags \<Rightarrow> addTags now env k (tags args)
             | None \<Rightarrow> ret ()) (\<lambda>_.
      queue_entries now cfg env entries
        (pipeline @ [case ttl of
                       Some seconds \<Rightarrow> (if seconds \<noteq> 0 then SETEX k seconds serialized
                                        else SET k serialized)
                     | None \<Rightarrow> SET k serialized])))))"

fun emit_set_events ::
  "'args CacheDefinitionConfig \<Rightarrow> CacheImpl \<Rightarrow> ('args \<times> jsval) list \<Rightarrow> ('args world, unit) action" where
  "emit_set_events cfg env [] = ret ()"
| "emit_set_events cfg env ((args, v) # entries) =
     await (attempted (serialize (serializer env) v)) (\<lambda>serialized.
     await (emit (SetEvent (buildKey env cfg args) (getTTL cfg (Some v)) (length serialized))) (\<lambda>_.
     emit_set_events cfg env entries))"

definition setMany ::
  "int \<Rightarrow> 'args CacheDefinitionConfig \<Rightarrow> CacheImpl \<Rightarrow> ('args \<times> jsval) list \<Rightarrow> ('args world, unit) action" where
  "setMany now cfg env entries =
     (if entries = [] then ret ()
      else
        await (queue_entries now cfg env entries []) (\<lambda>pipeline.
        await (on_redis (exec now pipeline)) (\<lambda>_.
        await (\<lambda>w. (Inr (),
                 w\<lparr>localCache :=
                      map_option
                        (fold (\<lambda>(args, v). LocalCache_set now (buildKey env cfg args) v (getTTL cfg (Some v)))
                              entries)
                        (localCache w)\<rparr>)) (\<lambda>_.
        emit_set_events cfg env entries))))"

definition invalidateMany ::
  "int \<Rightarrow> 'args CacheDefinitionConfig \<Rightarrow> CacheImpl \<Rightarrow> 'args list \<Rightarrow> ('args world, unit) action" where
  "invalidateMany now cfg env keys =
     (if keys = [] then ret ()
      else
        (let fullKeys = map (buildKey env cfg) keys in
         await (on_redis (redis_del now fullKeys)) (\<lambda>_.
         await (\<lambda>w. (Inr (), w\<lparr>localCache := map_option (fold LocalCache_delete fullKeys) (localCache w)\<rparr>)) (\<lambda>_.
         if pubsub env then fold (\<lambda>k m. await m (\<lambda>_. publish (KeyInvalidation k))) fullKeys (ret ())
         else ret ()))))"

text \<open>
  \<open>warm\<close>: an entry is the arguments alone, or the arguments with a value (which may be
  \<open>undefined\<close>); the values that are missing are fetched, and what there is goes to
  \<open>setMany\<close>.
\<close>

datatype 'args warm_entry = Args 'args | Entry 'args jsval

fun warm_args :: "'args warm_entry \<Rightarrow> 'args" where
  "warm_args (Args args) = args"
| "warm_args (Entry args v) = args"

fun warm_collect ::
  "'args CacheDefinitionConfig \<Rightarrow> 'args warm_entry list \<Rightarrow> ('args \<times> jsval) list \<Rightarrow>
   ('args world, ('args \<times> jsval) list) action" where
  "warm_collect cfg [] toSet = ret toSet"
| "warm_collect cfg (Args args # entries) toSet =
     (if config_fetch cfg \<noteq> None then
        await (invoke_fetch cfg args) (\<lambda>v.
        warm_collect cfg entries (if \<not> nullish v then toSet @ [(args, v)] else toSet))
      else warm_collect cfg entries toSet)"
| "warm_collect cfg (Entry args v # entries) toSet =
     (if v \<noteq> JUndefined then warm_collect cfg entries (toSet @ [(args, v)])
      else if config_fetch cfg \<noteq> None then
        await (invoke_fetch cfg args) (\<lambda>v.
        warm_collect cfg entries (if \<not> nullish v then toSet @ [(args, v)] else toSet))
      else warm_collect cfg entries toSet)"

definition warm ::
  "int \<Rightarrow> 'args CacheDefinitionConfig \<Rightarrow> CacheImpl \<Rightarrow> 'args warm_entry list \<Rightarrow> ('args world, unit) action" where
  "warm now cfg env entries =
     await (warm_collect cfg entries []) (\<lambda>toSet. setMany now cfg env toSet)"

section \<open>CacheImpl (cache.ts)\<close>

definition invalidatePattern :: "int \<Rightarrow> CacheImpl \<Rightarrow> string \<Rightarrow> ('args world, unit) action" where
  "invalidatePattern now env pattern =
     await (getKeysByPattern now env pattern) (\<lambda>keys.
       if keys = [] then ret ()
       else
         await (if mode env = Serverless
                then VersionedCache_invalidateMany now env keys
                else on_redis (redis_del now keys)) (\<lambda>_.
         await (\<lambda>w. (Inr (), w\<lparr>localCache := map_option (fold LocalCache_delete keys) (localCache w)\<rparr>)) (\<lambda>_.
         await (if pubsub env then publish (PatternInvalidation pattern keys) else ret ()) (\<lambda>_.
         emit (InvalidatePatternEvent pattern keys)))))"

definition invalidateTag :: "int \<Rightarrow> CacheImpl \<Rightarrow> string \<Rightarrow> ('args world, unit) action" where
  "invalidateTag now env tag =
     await (getKeysByTag now env tag) (\<lambda>keys.
       if keys = [] then ret ()
       else
         await (if mode env = Serverless
                then VersionedCache_invalidateMany now env keys
                else on_redis (redis_del now keys)) (\<lambda>_.
         await (\<lambda>w. (Inr (), w\<lparr>localCache := map_option (LocalCache_deleteByTag tag keys) (localCache w)\<rparr>)) (\<lambda>_.
         await (if pubsub env then publish (TagInvalidation tag keys) else ret ()) (\<lambda>_.
         await (deleteTag now env tag) (\<lambda>_.
         emit (InvalidateTagEvent tag keys))))))"

text \<open>\<open>CacheImpl.invalidateMany\<close>, which takes full keys.\<close>

definition invalidateKeys :: "int \<Rightarrow> CacheImpl \<Rightarrow> string list \<Rightarrow> ('args world, unit) action" where
  "invalidateKeys now env keys =
     (if keys = [] then ret ()
      else
        await (on_redis (redis_del now keys)) (\<lambda>_.
        await (\<lambda>w. (Inr (), w\<lparr>localCache := map_option (fold LocalCache_delete keys) (localCache w)\<rparr>)) (\<lambda>_.
        await (if pubsub env then fold (\<lambda>k m. await m (\<lambda>_. publish (KeyInvalidation k))) keys (ret ())
               else ret ()) (\<lambda>_.
        emit (InvalidateKeysEvent keys)))))"

text \<open>
  The constructor of \<open>CacheImpl\<close>, from the options it reads: the mode (after \<open>auto\<close> has
  been resolved), the prefix, the codec, the options of the circuit breaker, whether
  \<open>pubsub.enabled\<close> and \<open>local.enabled\<close> are \<open>false\<close>, the options of the local cache, and
  whether \<open>hooks.onError\<close> is given. \<open>createCache\<close> is what it fixes, \<open>constructed\<close> the state
  of the process once it has run, connected to the store \<open>r\<close>.
\<close>

record CacheConfig =
  cc_mode :: mode
  cc_prefix :: "string option"
  cc_serializer :: Serializer
  cc_threshold :: "int option"
  cc_timeout :: "int option"
  cc_halfOpenRequests :: "int option"
  cc_pubsub_enabled :: bool
  cc_local_enabled :: bool
  cc_local_maxSize :: "nat option"
  cc_local_ttl :: "int option"
  cc_onError_hook :: bool

definition createCache :: "CacheConfig \<Rightarrow> CacheImpl" where
  "createCache config =
     \<lparr> prefix = (case cc_prefix config of Some p \<Rightarrow> (if p = [] then ''remix-cache'' else p)
                                          | None \<Rightarrow> ''remix-cache''),
       mode = cc_mode config,
       serializer = cc_serializer config,
       pubsub = (cc_mode config = Server \<and> cc_pubsub_enabled config) \<rparr>"

definition constructed :: "CacheConfig \<Rightarrow> redis \<Rightarrow> 'args world" where
  "constructed config r =
     \<lparr> redis = r,
       localCache = (if cc_mode config = Server \<and> cc_local_enabled config
                     then Some (new_LocalCache (cc_local_maxSize config) (cc_local_ttl config))
                     else None),
       circuitBreaker = new_CircuitBreaker (cc_threshold config) (cc_timeout config)
                          (cc_halfOpenRequests config),
       pending = Map.empty,
       error_listener = cc_onError_hook config,
       emitted = [],
       published = [],
       fetches = 0,
       revalidating = [] \<rparr>"

definition new_redis :: redis where
  "new_redis = \<lparr> keyspace = Map.empty, fails = (\<lambda>_. False), issued = 0 \<rparr>"

text \<open>
  A codec given by a finite table of values and their serialized forms (enough of a codec
  for an example that stores finitely many values).
\<close>

definition table_codec :: "(jsval \<times> string) list \<Rightarrow> Serializer" where
  "table_codec table =
     \<lparr> serialize = (\<lambda>v. case map_of table v of Some s \<Rightarrow> Inr s
                                              | None \<Rightarrow> Inl (SerializationError ''not in the table'')),
       deserialize = (\<lambda>s. case map_of (map (\<lambda>(v, s). (s, v)) table) s of
                             Some v \<Rightarrow> Inr v
                           | None \<Rightarrow> Inl (SerializationError ''not in the table'')) \<rparr>"


section \<open>Fixtures\<close>

text \<open>
  The cache of the test suites: \<open>createCache({redis, prefix: 'test-cache', mode})\<close> with an
  \<open>error\<close> listener registered, and the definition \<open>cache.define({name: 'user', key:
  (userId) => userId})\<close>, to which the examples add what they need.
\<close>

definition test_cache :: "mode \<Rightarrow> Serializer \<Rightarrow> CacheConfig" where
  "test_cache m codec =
     \<lparr> cc_mode = m, cc_prefix = Some ''test-cache'', cc_serializer = codec,
       cc_threshold = None, cc_timeout = None, cc_halfOpenRequests = None,
       cc_pubsub_enabled = True, cc_local_enabled = True,
       cc_local_maxSize = None, cc_local_ttl = None, cc_onError_hook = True \<rparr>"

definition userCache :: "string CacheDefinitionConfig" where
  "userCache =
     \<lparr> config_name = ''user'', config_key = (\<lambda>userId. userId), config_fetch = None,
       config_tags = None, config_ttl = None, config_staleWhileRevalidate = None,
       config_dedupe = None, config_invalidates = None \<rparr>"

definition user :: "string \<Rightarrow> jsval" where
  "user n = JObj [(''id'', JStr n), (''name'', JStr (''User '' @ n))]"

text \<open>A store whose every round trip is lost.\<close>

definition down :: "redis \<Rightarrow> redis" where
  "down r = r\<lparr>fails := (\<lambda>_. True)\<rparr>"


section \<open>Basic facts about actions and the store\<close>

lemma await_simps:
  "await (ret x) f = f x"
  "await (throw e) f = throw e"
  by (auto simp: await_def ret_def throw_def)

lemma await_apply:
  "await m f w = (case m w of (Inl e, w') \<Rightarrow> (Inl e, w') | (Inr x, w') \<Rightarrow> f x w')"
  by (simp add: await_def)

lemma send_healthy:
  "\<not> fails r (issued r) \<Longrightarrow>
   send now cmd r = (fst (run_command now cmd (keyspace r)),
                     r\<lparr>keyspace := snd (run_command now cmd (keyspace r)), issued := Suc (issued r)\<rparr>)"
  by (simp add: send_def split: prod.splits)

lemma send_keeps_fails: "fails (snd (send now cmd r)) = fails r"
  by (simp add: send_def split: prod.splits)

lemma exec_keeps_fails: "fails (snd (exec now cmds r)) = fails r"
  by (simp add: exec_def)

text \<open>An entry that holds a string and has not expired is out of reach of SADD.\<close>

lemma live_entry: "live now ks k = Some x \<Longrightarrow> ks k = Some x"
  by (auto simp: live_def split: option.splits prod.splits if_splits)

lemma sadd_keeps_string:
  assumes "live now ks k = Some (RString s, dl)"
  shows "live now (snd (run_command now (SADD k' m) ks)) k = Some (RString s, dl)"
proof (cases "k' = k")
  case True
  with assms show ?thesis by simp
next
  case False
  with assms show ?thesis
    by (auto simp: live_def split: option.splits prod.splits rvalue.splits)
qed

lemma sadds_keep_string:
  assumes "live now ks k = Some (RString s, dl)"
  shows "live now (fold (\<lambda>cmd ks. snd (run_command now cmd ks)) (map (\<lambda>t. SADD (f t) m) ts) ks) k
         = Some (RString s, dl)"
  using assms
proof (induction ts arbitrary: ks)
  case Nil
  then show ?case by simp
next
  case (Cons t ts)
  have "live now (snd (run_command now (SADD (f t) m) ks)) k = Some (RString s, dl)"
    using Cons.prems by (rule sadd_keeps_string)
  then show ?case using Cons.IH[of "snd (run_command now (SADD (f t) m) ks)"]
    by simp
qed

lemma trackKey_keeps_string:
  assumes "live now (keyspace (redis w)) k = Some (RString s, dl)"
  shows "live now (keyspace (redis (snd (trackKey now env k' w)))) k = Some (RString s, dl)"
  using assms sadd_keeps_string[where ks = "keyspace (redis w)" and k = k and s = s and dl = dl
      and now = now and k' = "patternKey (prefix env) (split CHR '':'' k' ! 1)" and m = k']
  by (auto simp: trackKey_def Let_def ret_def on_redis_def redis_sadd_def await_def send_def
           split: prod.splits sum.splits)

lemma addTags_keeps_string:
  assumes "live now (keyspace (redis w)) k = Some (RString s, dl)"
  shows "live now (keyspace (redis (snd (addTags now env k' tags w)))) k = Some (RString s, dl)"
  using assms sadds_keep_string[where ks = "keyspace (redis w)" and k = k and s = s and dl = dl
      and now = now and f = "tagKey (prefix env)" and m = k' and ts = tags]
  by (auto simp: addTags_def ret_def on_redis_def exec_def split: prod.splits)

lemma emit_keeps_redis: "redis (snd (emit ev w)) = redis w"
  by (cases ev) (simp_all add: emit_def)

lemma emit_keeps_localCache: "localCache (snd (emit ev w)) = localCache w"
  by (cases ev) (simp_all add: emit_def)



lemma preservesI: "(\<And>w. P w \<Longrightarrow> P (snd (m w))) \<Longrightarrow> preserves P m"
  by (simp add: preserves_def)

lemma preservesD: "preserves P m \<Longrightarrow> P w \<Longrightarrow> P (snd (m w))"
  by (simp add: preserves_def)

lemma preserves_ret [intro!]: "preserves P (ret x)"
  by (simp add: preserves_def ret_def)

lemma preserves_throw [intro!]: "preserves P (throw e)"
  by (simp add: preserves_def throw_def)

lemma preserves_attempted [intro!]: "preserves P (attempted r)"
  by (simp add: preserves_def attempted_def)

lemma preserves_await [intro!]:
  "preserves P m \<Longrightarrow> (\<And>x. preserves P (f x)) \<Longrightarrow> preserves P (await m f)"
  by (auto simp: preserves_def await_def split: prod.splits sum.splits)

lemma preserves_if [intro!]:
  "(b \<Longrightarrow> preserves P m) \<Longrightarrow> (\<not> b \<Longrightarrow> preserves P n) \<Longrightarrow> preserves P (if b then m else n)"
  by simp

lemma preserves_option [intro!]:
  "(x = None \<Longrightarrow> preserves P n) \<Longrightarrow> (\<And>y. x = Some y \<Longrightarrow> preserves P (f y)) \<Longrightarrow>
   preserves P (case x of None \<Rightarrow> n | Some y \<Rightarrow> f y)"
  by (cases x) simp_all

lemma preserves_let [intro!]: "preserves P (f x) \<Longrightarrow> preserves P (let y = x in f y)"
  by simp

lemma preserves_emit:
  "(\<And>w es. P w \<Longrightarrow> P (w\<lparr>emitted := es\<rparr>)) \<Longrightarrow> preserves P (emit ev)"
  by (cases ev) (auto simp: preserves_def emit_def)

lemma healthy_send:
  "healthy r \<Longrightarrow>
   send now cmd r = (fst (run_command now cmd (keyspace r)),
                     r\<lparr>keyspace := snd (run_command now cmd (keyspace r)), issued := Suc (issued r)\<rparr>)"
  by (simp add: healthy_def send_healthy)

lemma healthy_update [simp]:
  "healthy (r\<lparr>keyspace := ks, issued := n\<rparr>) = healthy r"
  "healthy (r\<lparr>keyspace := ks\<rparr>) = healthy r"
  "healthy (r\<lparr>issued := n\<rparr>) = healthy r"
  by (simp_all add: healthy_def)

lemmas model_eval =
  set_value_def wrapped_value_def getTTL_def buildKey_def buildCacheKey_def
  await_def ret_def throw_def attempted_def whenever_def on_redis_def
  redis_get_def redis_set_def redis_setex_def redis_expire_def redis_del_def redis_incr_def
  redis_sadd_def redis_srem_def redis_smembers_def redis_mget_def send_def exec_def live_def
  trackKey_def addTags_def removeKey_def removeTags_def patternKey_def tagKey_def
  versionKey_def versionedKey_def VersionedCache_get_def VersionedCache_set_def
  VersionedCache_invalidate_def VersionedCache_invalidateMany_def
  emit_def publish_def num_truthy_def nullish_def
  LocalCache_get_def LocalCache_set_def LocalCache_delete_def new_LocalCache_def
  createCache_def constructed_def test_cache_def userCache_def user_def new_redis_def
  table_codec_def new_CircuitBreaker_def down_def healthy_def Let_def

lemma run_command_frame:
  "k \<notin> command_keys cmd \<Longrightarrow> snd (run_command now cmd ks) k = ks k"
  by (cases cmd) (auto split: option.splits prod.splits rvalue.splits)

lemma send_frame:
  "k \<notin> command_keys cmd \<Longrightarrow> keyspace (snd (send now cmd r)) k = keyspace r k"
  by (simp add: send_def run_command_frame split: prod.splits)
     (metis run_command_frame snd_conv)

lemma exec_frame:
  "k \<notin> \<Union> (command_keys ` set cmds) \<Longrightarrow> keyspace (snd (exec now cmds r)) k = keyspace r k"
proof -
  have "\<And>ks. k \<notin> \<Union> (command_keys ` set cmds) \<Longrightarrow>
          fold (\<lambda>cmd ks. snd (run_command now cmd ks)) cmds ks k = ks k"
    by (induction cmds) (simp_all add: run_command_frame)
  then show "k \<notin> \<Union> (command_keys ` set cmds) \<Longrightarrow> ?thesis"
    by (simp add: exec_def)
qed

lemma await_ret_frame:
  "(\<And>r. keyspace (snd (m r)) k = keyspace r k) \<Longrightarrow>
   keyspace (snd (await m (\<lambda>rep. ret (g rep)) r)) k = keyspace r k"
  by (simp add: await_def ret_def split: prod.splits sum.splits) (metis snd_conv)

lemma redis_frames:
  "k \<noteq> k' \<Longrightarrow> keyspace (snd (redis_get now k' r)) k = keyspace r k"
  "k \<noteq> k' \<Longrightarrow> keyspace (snd (redis_set now k' v r)) k = keyspace r k"
  "k \<noteq> k' \<Longrightarrow> keyspace (snd (redis_setex now k' seconds v r)) k = keyspace r k"
  "k \<noteq> k' \<Longrightarrow> keyspace (snd (redis_expire now k' seconds r)) k = keyspace r k"
  "k \<notin> set keys \<Longrightarrow> keyspace (snd (redis_del now keys r)) k = keyspace r k"
  "k \<noteq> k' \<Longrightarrow> keyspace (snd (redis_incr now k' r)) k = keyspace r k"
  "k \<noteq> k' \<Longrightarrow> keyspace (snd (redis_sadd now k' m r)) k = keyspace r k"
  "k \<noteq> k' \<Longrightarrow> keyspace (snd (redis_srem now k' m r)) k = keyspace r k"
  "k \<noteq> k' \<Longrightarrow> keyspace (snd (redis_smembers now k' r)) k = keyspace r k"
  "keyspace (snd (redis_mget now keys r)) k = keyspace r k"
  unfolding redis_get_def redis_set_def redis_setex_def redis_expire_def redis_del_def redis_incr_def
    redis_sadd_def redis_srem_def redis_smembers_def redis_mget_def
  by (rule await_ret_frame, simp add: send_frame)+
     (rule await_ret_frame, simp add: send_def split: prod.splits)

lemma preserves_on_redis:
  "(\<And>r. keyspace (snd (m r)) k = keyspace r k) \<Longrightarrow>
   preserves (\<lambda>w. keyspace (redis w) k = c) (on_redis m)"
  by (simp add: preserves_def on_redis_def split: prod.splits) (metis snd_conv)


lemma split_nonempty: "split c s \<noteq> []"
  by (induction s) (auto split: list.splits)

lemma split_segment: "c \<notin> set a \<Longrightarrow> split c (a @ c # rest) = a # split c rest"
  by (induction a) (auto split: list.splits simp: split_nonempty)

lemma split_cache_key:
  assumes "CHR '':'' \<notin> set pfx" "CHR '':'' \<notin> set name"
  shows "split CHR '':'' (buildCacheKey pfx name k) = pfx # name # split CHR '':'' k"
  using assms by (simp add: buildCacheKey_def split_segment)

lemma preserves_local:
  "preserves (\<lambda>w. keyspace (redis w) k = c) (\<lambda>w. (Inr x, w\<lparr>localCache := f w\<rparr>))"
  by (simp add: preserves_def)

lemma trackKey_frame:
  "k \<noteq> patternKey (prefix env) (split CHR '':'' k' ! 1) \<Longrightarrow>
   preserves (\<lambda>w. keyspace (redis w) k = c) (trackKey now env k')"
  unfolding trackKey_def by (auto intro!: preserves_on_redis simp: redis_frames)

lemma addTags_frame:
  "k \<notin> tagKey (prefix env) ` set tags \<Longrightarrow>
   preserves (\<lambda>w. keyspace (redis w) k = c) (addTags now env k' tags)"
  unfolding addTags_def by (auto intro!: preserves_on_redis exec_frame)

lemma VersionedCache_set_frame:
  "k \<noteq> versionKey (prefix env) k' \<Longrightarrow> \<forall>N. k \<noteq> versionedKey (prefix env) k' N \<Longrightarrow>
   preserves (\<lambda>w. keyspace (redis w) k = c) (VersionedCache_set now env k' v ttl)"
  unfolding VersionedCache_set_def by (auto intro!: preserves_on_redis simp: redis_frames)

lemma VersionedCache_invalidate_frame:
  "k \<noteq> versionKey (prefix env) k' \<Longrightarrow>
   preserves (\<lambda>w. keyspace (redis w) k = c) (VersionedCache_invalidate now env k')"
  unfolding VersionedCache_invalidate_def by (auto intro!: preserves_on_redis simp: redis_frames)

lemma set_value_frame:
  assumes "mode env = Server \<longrightarrow> k \<noteq> buildKey env cfg args"
    and "mode env = Serverless \<longrightarrow> k \<noteq> versionKey (prefix env) (buildKey env cfg args)
           \<and> (\<forall>N. k \<noteq> versionedKey (prefix env) (buildKey env cfg args) N)"
    and "k \<noteq> patternKey (prefix env) (split CHR '':'' (buildKey env cfg args) ! 1)"
    and "\<forall>tags. config_tags cfg = Some tags \<longrightarrow> k \<notin> tagKey (prefix env) ` set (tags args)"
  shows "preserves (\<lambda>w. keyspace (redis w) k = c) (set_value now cfg env args v)"
  unfolding set_value_def using assms
  by (cases "mode env")
     (auto intro!: preserves_on_redis preserves_local trackKey_frame addTags_frame
                   VersionedCache_set_frame preserves_emit
           simp: redis_frames)



section \<open>Facts about get\<close>

lemma redis_get_healthy:
  "healthy r \<Longrightarrow>
   redis_get now k r =
     (case live now (keyspace r) k of
        None \<Rightarrow> (Inr None, r\<lparr>issued := Suc (issued r)\<rparr>)
      | Some (RString s, d) \<Rightarrow> (Inr (Some s), r\<lparr>issued := Suc (issued r)\<rparr>)
      | Some (RSet ms, d) \<Rightarrow> (Inl WrongType, r\<lparr>issued := Suc (issued r)\<rparr>))"
  by (simp add: redis_get_def await_def ret_def healthy_send
           split: option.splits prod.splits rvalue.splits)

lemma await_proj:
  "await m f w = (case fst (m w) of Inl e \<Rightarrow> (Inl e, snd (m w)) | Inr x \<Rightarrow> f x (snd (m w)))"
  by (simp add: await_def split: prod.splits sum.splits)

lemma on_redis_proj: "on_redis m w = (fst (m (redis w)), w\<lparr>redis := snd (m (redis w))\<rparr>)"
  by (simp add: on_redis_def split: prod.splits)

lemma redis_expire_healthy:
  "healthy r \<Longrightarrow>
   redis_expire now k seconds r =
     (Inr (), r\<lparr>keyspace := snd (run_command now (EXPIRE k seconds) (keyspace r)),
                 issued := Suc (issued r)\<rparr>)"
  by (simp add: redis_expire_def await_proj ret_def healthy_send split: option.splits)

lemma resetTTL_healthy:
  "healthy (redis w) \<Longrightarrow> fst (resetTTL now cfg k v w) = Inr ()"
  by (simp add: resetTTL_def ret_def on_redis_proj redis_expire_healthy split: option.splits)

lemma emit_hit: "emit (HitEvent k src) w = (Inr (), w\<lparr>emitted := emitted w @ [HitEvent k src]\<rparr>)"
  by (simp add: emit_def)

lemma emit_miss: "emit (MissEvent k) w = (Inr (), w\<lparr>emitted := emitted w @ [MissEvent k]\<rparr>)"
  by (simp add: emit_def)

lemma unwrapValue_object:
  "unwrapValue gt now (JObj props) =
     (if map_of props ''data'' \<noteq> None \<and> map_of props ''expiresAt'' \<noteq> None
      then \<lparr> data = property (JObj props) ''data'',
             isStale = (truthy (property (JObj props) ''expiresAt'')
                        \<and> js_gt gt now (property (JObj props) ''expiresAt'')),
             isPastStale = (truthy (property (JObj props) ''staleUntil'')
                            \<and> js_gt gt now (property (JObj props) ''staleUntil'')) \<rparr>
      else \<lparr> data = JObj props, isStale = False, isPastStale = False \<rparr>)"
  by (simp add: unwrapValue_def)

text \<open>The circuit breaker around the two functions of \<open>get\<close>.\<close>

lemma with_breaker_apply:
  "with_breaker m (cb, w)
   = (fst (m (w\<lparr>circuitBreaker := cb\<rparr>)),
      circuitBreaker (snd (m (w\<lparr>circuitBreaker := cb\<rparr>))), snd (m (w\<lparr>circuitBreaker := cb\<rparr>)))"
  by (simp add: with_breaker_def split: prod.splits)

lemma admit_fst: "fst (admit now cb) = (\<not> (state cb = Open \<and> now < nextAttempt cb))"
  by (simp add: admit_def)

lemma world_breaker_same [simp]: "(w :: 'args world)\<lparr>circuitBreaker := circuitBreaker w\<rparr> = w"
  by simp

lemma through_breaker_refused:
  assumes "state (circuitBreaker w) = Open" "now < nextAttempt (circuitBreaker w)"
  shows "through_breaker now fn fallback w = fallback w"
proof -
  have a: "admit now (circuitBreaker w) = (False, circuitBreaker w)"
    using assms by (simp add: admit_def)
  show ?thesis
    by (simp add: through_breaker_def execute_def a with_breaker_apply)
qed

lemma through_breaker_success:
  assumes "\<not> (state (circuitBreaker w) = Open \<and> now < nextAttempt (circuitBreaker w))"
    and "fn (w\<lparr>circuitBreaker := snd (admit now (circuitBreaker w))\<rparr>) = (Inr x, w1)"
  shows "through_breaker now fn fallback w
         = (Inr x, w1\<lparr>circuitBreaker := onSuccess (circuitBreaker w1)\<rparr>)"
proof -
  obtain cb1 where a: "admit now (circuitBreaker w) = (True, cb1)"
    using assms(1) admit_fst[of now "circuitBreaker w"] by (cases "admit now (circuitBreaker w)") auto
  from assms(2) have f: "fn (w\<lparr>circuitBreaker := cb1\<rparr>) = (Inr x, w1)" by (simp add: a)
  show ?thesis
    by (simp add: through_breaker_def execute_def a with_breaker_apply f)
qed

lemma through_breaker_failure:
  assumes "\<not> (state (circuitBreaker w) = Open \<and> now < nextAttempt (circuitBreaker w))"
    and "fn (w\<lparr>circuitBreaker := snd (admit now (circuitBreaker w))\<rparr>) = (Inl e, w1)"
    and "instanceof_Error e" "error_listener w1"
  shows "through_breaker now fn fallback w
         = fallback (w1\<lparr>emitted := emitted w1 @ [ErrorEvent e],
                         circuitBreaker := onFailure now (circuitBreaker w1)\<rparr>)"
proof -
  obtain cb1 where a: "admit now (circuitBreaker w) = (True, cb1)"
    using assms(1) admit_fst[of now "circuitBreaker w"] by (cases "admit now (circuitBreaker w)") auto
  from assms(2) have f: "fn (w\<lparr>circuitBreaker := cb1\<rparr>) = (Inl e, w1)" by (simp add: a)
  show ?thesis
    using assms(3,4)
    by (simp add: through_breaker_def execute_def a with_breaker_apply f emit_def)
qed

lemma through_breaker_unheard:
  assumes "\<not> (state (circuitBreaker w) = Open \<and> now < nextAttempt (circuitBreaker w))"
    and "fn (w\<lparr>circuitBreaker := snd (admit now (circuitBreaker w))\<rparr>) = (Inl e, w1)"
    and "instanceof_Error e" "\<not> error_listener w1"
  shows "through_breaker now fn fallback w
         = (Inl UnhandledError, w1\<lparr>circuitBreaker := onFailure now (circuitBreaker w1)\<rparr>)"
proof -
  obtain cb1 where a: "admit now (circuitBreaker w) = (True, cb1)"
    using assms(1) admit_fst[of now "circuitBreaker w"] by (cases "admit now (circuitBreaker w)") auto
  from assms(2) have f: "fn (w\<lparr>circuitBreaker := cb1\<rparr>) = (Inl e, w1)" by (simp add: a)
  show ?thesis
    using assms(3,4)
    by (simp add: through_breaker_def execute_def a with_breaker_apply f emit_def)
qed

text \<open>The look into the \<open>LocalCache\<close>, case by case.\<close>

lemma get_local_absent:
  "localCache w = None \<Longrightarrow> get_local gt now cfg env args w = (Inr None, w)"
  by (simp add: get_local_def Let_def)

lemma get_local_none:
  assumes "localCache w = Some lc" "LocalCache_get now (buildKey env cfg args) lc = (None, lc1)"
  shows "get_local gt now cfg env args w = (Inr None, w\<lparr>localCache := Some lc1\<rparr>)"
  using assms by (simp add: get_local_def Let_def)

lemma get_local_past_stale:
  assumes "localCache w = Some lc" "LocalCache_get now (buildKey env cfg args) lc = (Some v, lc1)"
    and "isPastStale (unwrapValue gt now v)"
  shows "get_local gt now cfg env args w
         = (Inr None, w\<lparr>localCache := Some (LocalCache_delete (buildKey env cfg args) lc1)\<rparr>)"
  using assms by (simp add: get_local_def Let_def)

lemma get_local_stale:
  assumes "localCache w = Some lc" "LocalCache_get now (buildKey env cfg args) lc = (Some v, lc1)"
    and "\<not> isPastStale (unwrapValue gt now v)"
    and "isStale (unwrapValue gt now v)" "config_fetch cfg \<noteq> None"
  shows "get_local gt now cfg env args w
         = (Inr (Some (data (unwrapValue gt now v))),
            w\<lparr>localCache := Some lc1, revalidating := revalidating w @ [args],
               emitted := emitted w @ [HitEvent (buildKey env cfg args) ''local'']\<rparr>)"
  using assms
  by (simp add: get_local_def Let_def await_apply schedule_revalidation_def emit_hit ret_def)

lemma get_local_fresh:
  assumes "localCache w = Some lc" "LocalCache_get now (buildKey env cfg args) lc = (Some v, lc1)"
    and "\<not> isPastStale (unwrapValue gt now v)"
    and "\<not> (isStale (unwrapValue gt now v) \<and> config_fetch cfg \<noteq> None)"
    and "healthy (redis w)"
  shows "fst (get_local gt now cfg env args w) = Inr (Some (data (unwrapValue gt now v)))"
    and "revalidating (snd (get_local gt now cfg env args w)) = revalidating w"
    and "fetches (snd (get_local gt now cfg env args w)) = fetches w"
    and "emitted (snd (get_local gt now cfg env args w))
         = emitted w @ [HitEvent (buildKey env cfg args) ''local'']"
  using assms
  by (auto simp: get_local_def Let_def await_proj emit_hit ret_def resetTTL_def on_redis_proj
        redis_expire_healthy split: option.splits)

text \<open>The primary function of \<open>get\<close>, case by case of what the store holds.\<close>

lemma get_primary_store_failure:
  assumes "fails (redis w) (issued (redis w))"
  shows "get_primary gt now cfg env args w
         = (Inl (StoreError ''connection lost''),
            w\<lparr>redis := (redis w)\<lparr>issued := Suc (issued (redis w))\<rparr>\<rparr>)"
  using assms by (simp add: get_primary_def Let_def await_apply on_redis_def redis_get_def send_def)

lemma get_primary_miss:
  assumes "\<not> fails (redis w) (issued (redis w))"
    and "live now (keyspace (redis w)) (buildKey env cfg args) = None
         \<or> (\<exists>d. live now (keyspace (redis w)) (buildKey env cfg args) = Some (RString [], d))"
  shows "get_primary gt now cfg env args w
         = fetch_on_miss now cfg env args
             (w\<lparr>redis := (redis w)\<lparr>issued := Suc (issued (redis w))\<rparr>,
                emitted := emitted w @ [MissEvent (buildKey env cfg args)]\<rparr>)"
  using assms
  by (auto simp: get_primary_def Let_def await_apply on_redis_def redis_get_def send_def ret_def
        emit_miss)

lemma get_primary_found:
  assumes "\<not> fails (redis w) (issued (redis w))"
    and "live now (keyspace (redis w)) (buildKey env cfg args) = Some (RString s, d)" "s \<noteq> []"
    and "deserialize (serializer env) s = Inr v"
  shows "isPastStale (unwrapValue gt now v) \<Longrightarrow>
         get_primary gt now cfg env args w
         = fetch_on_miss now cfg env args
             (w\<lparr>redis := (redis w)\<lparr>issued := Suc (issued (redis w))\<rparr>,
                emitted := emitted w @ [MissEvent (buildKey env cfg args)]\<rparr>)"
    and "\<not> isPastStale (unwrapValue gt now v) \<Longrightarrow>
         isStale (unwrapValue gt now v) \<and> config_fetch cfg \<noteq> None \<Longrightarrow>
         get_primary gt now cfg env args w
         = (Inr (data (unwrapValue gt now v)),
            w\<lparr>redis := (redis w)\<lparr>issued := Suc (issued (redis w))\<rparr>,
               revalidating := revalidating w @ [args],
               emitted := emitted w @ [HitEvent (buildKey env cfg args) ''redis'']\<rparr>)"
    and "\<not> isPastStale (unwrapValue gt now v) \<Longrightarrow>
         \<not> (isStale (unwrapValue gt now v) \<and> config_fetch cfg \<noteq> None) \<Longrightarrow>
         get_primary gt now cfg env args w
         = (await (resetTTL now cfg (buildKey env cfg args) (Some (data (unwrapValue gt now v)))) (\<lambda>_.
            await (emit (HitEvent (buildKey env cfg args) ''redis'')) (\<lambda>_.
            ret (data (unwrapValue gt now v)))))
             (w\<lparr>redis := (redis w)\<lparr>issued := Suc (issued (redis w))\<rparr>,
                localCache :=
                  (if truthy (data (unwrapValue gt now v))
                   then map_option (LocalCache_set now (buildKey env cfg args) v
                                      (getTTL cfg (Some (data (unwrapValue gt now v)))))
                          (localCache w)
                   else localCache w)\<rparr>)"
  using assms
  by (auto simp: get_primary_def Let_def await_apply on_redis_def redis_get_def send_def ret_def
        emit_miss emit_hit attempted_def schedule_revalidation_def)

lemma resetTTL_effect:
  assumes "healthy (redis w)"
  shows "\<exists>r'. resetTTL now cfg k v w = (Inr (), w\<lparr>redis := r'\<rparr>) \<and> fails r' = fails (redis w)"
proof (cases "\<exists>seconds. getTTL cfg v = Some seconds \<and> seconds \<noteq> 0 \<and> isSliding cfg")
  case True
  then obtain seconds where s: "getTTL cfg v = Some seconds" "seconds \<noteq> 0" "isSliding cfg" by auto
  have "resetTTL now cfg k v w
        = (Inr (), w\<lparr>redis := (redis w)\<lparr>keyspace := snd (run_command now (EXPIRE k seconds) (keyspace (redis w))),
                                         issued := Suc (issued (redis w))\<rparr>\<rparr>)"
    using s assms by (simp add: resetTTL_def on_redis_proj redis_expire_healthy)
  then show ?thesis by (intro exI[of _ "(redis w)\<lparr>keyspace := snd (run_command now (EXPIRE k seconds) (keyspace (redis w))),
                                         issued := Suc (issued (redis w))\<rparr>"]) simp
next
  case False
  then have "resetTTL now cfg k v w = (Inr (), w\<lparr>redis := redis w\<rparr>)"
    by (auto simp: resetTTL_def ret_def split: option.splits)
  then show ?thesis by (intro exI[of _ "redis w"]) simp
qed

lemma get_primary_fresh:
  assumes "healthy (redis w)"
    and "live now (keyspace (redis w)) (buildKey env cfg args) = Some (RString s, d)" "s \<noteq> []"
    and "deserialize (serializer env) s = Inr v"
    and "\<not> isPastStale (unwrapValue gt now v)"
    and "\<not> (isStale (unwrapValue gt now v) \<and> config_fetch cfg \<noteq> None)"
  shows "\<exists>r'. get_primary gt now cfg env args w
           = (Inr (data (unwrapValue gt now v)),
              w\<lparr>redis := r',
                 localCache :=
                   (if truthy (data (unwrapValue gt now v))
                    then map_option (LocalCache_set now (buildKey env cfg args) v
                                       (getTTL cfg (Some (data (unwrapValue gt now v)))))
                           (localCache w)
                    else localCache w),
                 emitted := emitted w @ [HitEvent (buildKey env cfg args) ''redis'']\<rparr>)
           \<and> fails r' = fails (redis w)"
proof -
  let ?u = "unwrapValue gt now v"
  let ?k = "buildKey env cfg args"
  let ?w1 = "w\<lparr>redis := (redis w)\<lparr>issued := Suc (issued (redis w))\<rparr>,
                localCache :=
                  (if truthy (data ?u)
                   then map_option (LocalCache_set now ?k v (getTTL cfg (Some (data ?u)))) (localCache w)
                   else localCache w)\<rparr>"
  have nf: "\<not> fails (redis w) (issued (redis w))" using assms(1) by (simp add: healthy_def)
  have h1: "healthy (redis ?w1)" using assms(1) by simp
  from resetTTL_effect[OF h1, of now cfg ?k "Some (data ?u)"]
  obtain r' where r: "resetTTL now cfg ?k (Some (data ?u)) ?w1 = (Inr (), ?w1\<lparr>redis := r'\<rparr>)"
    and f: "fails r' = fails (redis ?w1)" by blast
  have "get_primary gt now cfg env args w
        = (await (resetTTL now cfg ?k (Some (data ?u))) (\<lambda>_.
           await (emit (HitEvent ?k ''redis'')) (\<lambda>_. ret (data ?u)))) ?w1"
    using get_primary_found(3)[OF nf assms(2,3,4,5,6)] .
  also have "\<dots> = (Inr (data ?u), ?w1\<lparr>redis := r', emitted := emitted w @ [HitEvent ?k ''redis'']\<rparr>)"
    by (simp add: await_apply r emit_hit ret_def)
  finally show ?thesis using f by (intro exI[of _ r']) simp
qed

text \<open>
  \<open>get\<close> in server mode when the \<open>LocalCache\<close> has nothing under the key and the breaker
  lets the call through to a store that answers.
\<close>

lemma get_server_local_none:
  assumes "mode env = Server"
    and "localCache w = None
         \<or> (\<exists>lc. localCache w = Some lc \<and> map_of (lru_entries lc) (buildKey env cfg args) = None)"
  shows "get gt now cfg env args w
         = through_breaker now (get_primary gt now cfg env args) (get_fallback now cfg env args) w"
proof -
  have "get_local gt now cfg env args w = (Inr None, w)"
  proof (cases "localCache w")
    case None
    then show ?thesis by (rule get_local_absent)
  next
    case (Some lc)
    with assms(2) have "LocalCache_get now (buildKey env cfg args) lc = (None, lc)"
      by (simp add: LocalCache_get_def)
    from get_local_none[OF Some this] Some show ?thesis by simp
  qed
  then show ?thesis using assms(1) by (simp add: get_def await_apply)
qed

lemma get_server_store:
  fixes w :: "'args world"
  assumes "mode env = Server"
    and "localCache w = None
         \<or> (\<exists>lc. localCache w = Some lc \<and> map_of (lru_entries lc) (buildKey env cfg args) = None)"
    and "\<not> (state (circuitBreaker w) = Open \<and> now < nextAttempt (circuitBreaker w))"
    and "healthy (redis w)"
    and "live now (keyspace (redis w)) (buildKey env cfg args) = Some (RString s, d)" "s \<noteq> []"
    and "deserialize (serializer env) s = Inr v"
  shows "isPastStale (unwrapValue gt now v) \<Longrightarrow>
         fetch_on_miss now cfg env args
           (w\<lparr>circuitBreaker := snd (admit now (circuitBreaker w)),
              redis := (redis w)\<lparr>issued := Suc (issued (redis w))\<rparr>,
              emitted := emitted w @ [MissEvent (buildKey env cfg args)]\<rparr>) = (Inr x, w1) \<Longrightarrow>
         get gt now cfg env args w = (Inr x, w1\<lparr>circuitBreaker := onSuccess (circuitBreaker w1)\<rparr>)"
    and "\<not> isPastStale (unwrapValue gt now v) \<Longrightarrow>
         isStale (unwrapValue gt now v) \<and> config_fetch cfg \<noteq> None \<Longrightarrow>
         get gt now cfg env args w
         = (Inr (data (unwrapValue gt now v)),
            w\<lparr>redis := (redis w)\<lparr>issued := Suc (issued (redis w))\<rparr>,
               circuitBreaker := onSuccess (snd (admit now (circuitBreaker w))),
               emitted := emitted w @ [HitEvent (buildKey env cfg args) ''redis''],
               revalidating := revalidating w @ [args]\<rparr>)"
    and "\<not> isPastStale (unwrapValue gt now v) \<Longrightarrow>
         \<not> (isStale (unwrapValue gt now v) \<and> config_fetch cfg \<noteq> None) \<Longrightarrow>
         \<exists>r'. get gt now cfg env args w
         = (Inr (data (unwrapValue gt now v)),
            w\<lparr>redis := r',
               localCache :=
                 (if truthy (data (unwrapValue gt now v))
                  then map_option (LocalCache_set now (buildKey env cfg args) v
                                     (getTTL cfg (Some (data (unwrapValue gt now v)))))
                         (localCache w)
                  else localCache w),
               circuitBreaker := onSuccess (snd (admit now (circuitBreaker w))),
               emitted := emitted w @ [HitEvent (buildKey env cfg args) ''redis'']\<rparr>)"
proof -
  let ?w = "w\<lparr>circuitBreaker := snd (admit now (circuitBreaker w))\<rparr>"
  note g = get_server_local_none[OF assms(1,2), of gt now]
  have nf: "\<not> fails (redis ?w) (issued (redis ?w))" using assms(4) by (simp add: healthy_def)
  have lv: "live now (keyspace (redis ?w)) (buildKey env cfg args) = Some (RString s, d)"
    using assms(5) by simp
  have up: "healthy (redis ?w)" using assms(4) by simp
  {
    assume p: "isPastStale (unwrapValue gt now v)"
      and f: "fetch_on_miss now cfg env args
           (w\<lparr>circuitBreaker := snd (admit now (circuitBreaker w)),
              redis := (redis w)\<lparr>issued := Suc (issued (redis w))\<rparr>,
              emitted := emitted w @ [MissEvent (buildKey env cfg args)]\<rparr>) = (Inr x, w1)"
    have "get_primary gt now cfg env args ?w = (Inr x, w1)"
      using get_primary_found(1)[OF nf lv assms(6,7) p] f by simp
    from through_breaker_success[where fn = "get_primary gt now cfg env args", OF assms(3) this]
    show "get gt now cfg env args w = (Inr x, w1\<lparr>circuitBreaker := onSuccess (circuitBreaker w1)\<rparr>)"
      by (simp add: g)
  }
  {
    assume p: "\<not> isPastStale (unwrapValue gt now v)"
      and st: "isStale (unwrapValue gt now v) \<and> config_fetch cfg \<noteq> None"
    note get_primary_found(2)[OF nf lv assms(6,7) p st]
    from through_breaker_success[where fn = "get_primary gt now cfg env args", OF assms(3) this]
    show "get gt now cfg env args w
         = (Inr (data (unwrapValue gt now v)),
            w\<lparr>redis := (redis w)\<lparr>issued := Suc (issued (redis w))\<rparr>,
               circuitBreaker := onSuccess (snd (admit now (circuitBreaker w))),
               emitted := emitted w @ [HitEvent (buildKey env cfg args) ''redis''],
               revalidating := revalidating w @ [args]\<rparr>)"
      by (simp add: g)
  }
  {
    assume p: "\<not> isPastStale (unwrapValue gt now v)"
      and st: "\<not> (isStale (unwrapValue gt now v) \<and> config_fetch cfg \<noteq> None)"
    from get_primary_fresh[OF up lv assms(6,7) p st]
    obtain r' where r: "get_primary gt now cfg env args ?w
           = (Inr (data (unwrapValue gt now v)),
              ?w\<lparr>redis := r',
                 localCache :=
                   (if truthy (data (unwrapValue gt now v))
                    then map_option (LocalCache_set now (buildKey env cfg args) v
                                       (getTTL cfg (Some (data (unwrapValue gt now v)))))
                           (localCache ?w)
                    else localCache ?w),
                 emitted := emitted ?w @ [HitEvent (buildKey env cfg args) ''redis'']\<rparr>)" by blast
    from through_breaker_success[where fn = "get_primary gt now cfg env args", OF assms(3) r]
    show "\<exists>r'. get gt now cfg env args w
         = (Inr (data (unwrapValue gt now v)),
            w\<lparr>redis := r',
               localCache :=
                 (if truthy (data (unwrapValue gt now v))
                  then map_option (LocalCache_set now (buildKey env cfg args) v
                                     (getTTL cfg (Some (data (unwrapValue gt now v)))))
                         (localCache w)
                  else localCache w),
               circuitBreaker := onSuccess (snd (admit now (circuitBreaker w))),
               emitted := emitted w @ [HitEvent (buildKey env cfg args) ''redis'']\<rparr>)"
      by (intro exI[of _ r']) (simp add: g)
  }
qed

text \<open>\<open>get\<close> in server mode when the \<open>LocalCache\<close> holds a live entry under the key.\<close>

lemma get_server_local:
  fixes w :: "'args world"
  assumes "mode env = Server"
    and "localCache w = Some lc" "LocalCache_get now (buildKey env cfg args) lc = (Some v, lc1)"
  shows "isPastStale (unwrapValue gt now v) \<Longrightarrow>
         get gt now cfg env args w
         = through_breaker now (get_primary gt now cfg env args) (get_fallback now cfg env args)
             (w\<lparr>localCache := Some (LocalCache_delete (buildKey env cfg args) lc1)\<rparr>)"
    and "\<not> isPastStale (unwrapValue gt now v) \<Longrightarrow>
         isStale (unwrapValue gt now v) \<and> config_fetch cfg \<noteq> None \<Longrightarrow>
         get gt now cfg env args w
         = (Inr (data (unwrapValue gt now v)),
            w\<lparr>localCache := Some lc1, revalidating := revalidating w @ [args],
               emitted := emitted w @ [HitEvent (buildKey env cfg args) ''local'']\<rparr>)"
    and "\<not> isPastStale (unwrapValue gt now v) \<Longrightarrow>
         \<not> (isStale (unwrapValue gt now v) \<and> config_fetch cfg \<noteq> None) \<Longrightarrow>
         healthy (redis w) \<Longrightarrow>
         fst (get gt now cfg env args w) = Inr (data (unwrapValue gt now v))
         \<and> revalidating (snd (get gt now cfg env args w)) = revalidating w
         \<and> fetches (snd (get gt now cfg env args w)) = fetches w
         \<and> emitted (snd (get gt now cfg env args w))
           = emitted w @ [HitEvent (buildKey env cfg args) ''local'']"
proof -
  {
    assume p: "isPastStale (unwrapValue gt now v)"
    from get_local_past_stale[OF assms(2,3) p]
    show "get gt now cfg env args w
         = through_breaker now (get_primary gt now cfg env args) (get_fallback now cfg env args)
             (w\<lparr>localCache := Some (LocalCache_delete (buildKey env cfg args) lc1)\<rparr>)"
      using assms(1) by (simp add: get_def await_apply)
  }
  {
    assume p: "\<not> isPastStale (unwrapValue gt now v)"
      and st: "isStale (unwrapValue gt now v) \<and> config_fetch cfg \<noteq> None"
    from get_local_stale[OF assms(2,3) p] st
    show "get gt now cfg env args w
         = (Inr (data (unwrapValue gt now v)),
            w\<lparr>localCache := Some lc1, revalidating := revalidating w @ [args],
               emitted := emitted w @ [HitEvent (buildKey env cfg args) ''local'']\<rparr>)"
      using assms(1) by (simp add: get_def await_apply ret_def)
  }
  {
    assume p: "\<not> isPastStale (unwrapValue gt now v)"
      and st: "\<not> (isStale (unwrapValue gt now v) \<and> config_fetch cfg \<noteq> None)"
      and up: "healthy (redis w)"
    note f = get_local_fresh[OF assms(2,3) p st up]
    have "get gt now cfg env args w
          = (Inr (data (unwrapValue gt now v)), snd (get_local gt now cfg env args w))"
      using assms(1) f(1) by (simp add: get_def await_proj ret_def)
    then show "fst (get gt now cfg env args w) = Inr (data (unwrapValue gt now v))
         \<and> revalidating (snd (get gt now cfg env args w)) = revalidating w
         \<and> fetches (snd (get gt now cfg env args w)) = fetches w
         \<and> emitted (snd (get gt now cfg env args w))
           = emitted w @ [HitEvent (buildKey env cfg args) ''local'']"
      using f(2,3,4) by simp
  }
qed

section \<open>The circuit breaker as a state machine\<close>

lemma call_cases:
  "call (now, now', ok) (cb, n) =
     (if state cb = Open \<and> now < nextAttempt cb then (cb, n)
      else (let cb1 = (if state cb = Open then cb\<lparr>state := HalfOpen, halfOpenSuccesses := 0\<rparr> else cb)
            in (if ok then onSuccess cb1 else onFailure now' cb1, Suc n)))"
  by (simp add: call_def execute_def admit_def beside_def attempt_def use_fallback_def Let_def)

lemma call_config:
  "threshold (fst (call c s)) = threshold (fst s) \<and> timeout (fst (call c s)) = timeout (fst s)
   \<and> halfOpenRequests (fst (call c s)) = halfOpenRequests (fst s)"
  by (cases c; cases s) (simp add: call_cases onSuccess_def onFailure_def Let_def)

lemma calls_config:
  "threshold (fst (calls cs s)) = threshold (fst s) \<and> timeout (fst (calls cs s)) = timeout (fst s)
   \<and> halfOpenRequests (fst (calls cs s)) = halfOpenRequests (fst s)"
  by (induction cs arbitrary: s) (simp_all add: call_config)

lemma call_inv: "cb_inv (fst s) \<Longrightarrow> cb_inv (fst (call c s))"
  by (cases c; cases s; cases "state (fst s)")
     (auto simp: call_cases cb_inv_def onSuccess_def onFailure_def Let_def)

lemma calls_inv: "cb_inv (fst s) \<Longrightarrow> cb_inv (fst (calls cs s))"
  by (induction cs arbitrary: s) (simp_all add: call_inv)

lemma new_inv: "cb_inv (new_CircuitBreaker th tm hr)"
  by (simp add: cb_inv_def new_CircuitBreaker_def)

lemma calls_append: "calls (xs @ ys) s = calls ys (calls xs s)"
  by (induction xs arbitrary: s) simp_all

(* failing runs *)
lemma fail_step:
  assumes "cb_inv cb"
  shows "let cb' = fst (call (now, now', False) (cb, n)) in
         cb_inv cb' \<and> state cb' \<noteq> HalfOpen \<and>
         (state cb' = Closed \<longrightarrow> state cb = Closed \<and> failures cb' = failures cb + 1 \<and> failures cb' < threshold cb)"
  using assms by (auto simp: call_cases cb_inv_def onFailure_def Let_def)

lemma failing_run:
  "cb_inv (fst s) \<Longrightarrow> ts \<noteq> [] \<Longrightarrow>
   (let cb' = fst (calls (failing ts) s) in
      state cb' \<noteq> HalfOpen \<and>
      (state cb' = Closed \<longrightarrow> failures (fst s) + int (length ts) \<le> failures cb' \<and> failures cb' < threshold (fst s)))"
proof (induction ts arbitrary: s rule: rev_induct)
  case Nil
  then show ?case by simp
next
  case (snoc t ts)
  obtain now now' where t: "t = (now, now')" by (cases t)
  define s1 where "s1 = calls (failing ts) s"
  obtain cb1 n1 where s1: "s1 = (cb1, n1)" by (cases s1)
  have inv1: "cb_inv cb1" using calls_inv[OF snoc.prems(1), of "failing ts"] s1 s1_def by simp
  have th1: "threshold cb1 = threshold (fst s)" using calls_config[of "failing ts" s] s1 s1_def by simp
  have run: "calls (failing (ts @ [t])) s = call (now, now', False) (cb1, n1)"
    by (simp add: failing_def calls_append t s1[symmetric] s1_def)
  note st = fail_step[OF inv1, of now now' n1]
  show ?case
  proof (cases "ts = []")
    case True
    then have "cb1 = fst s" using s1 s1_def by (simp add: failing_def)
    with st run th1 snoc.prems show ?thesis by (auto simp: Let_def True cb_inv_def)
  next
    case False
    from snoc.IH[OF snoc.prems(1) False] s1 s1_def
    have ih: "state cb1 = Closed \<longrightarrow> failures (fst s) + int (length ts) \<le> failures cb1"
      by (simp add: Let_def)
    with st run th1 show ?thesis by (auto simp: Let_def)
  qed
qed

lemma opens_after_threshold:
  assumes "cb_inv (fst s)" "ts \<noteq> []" "threshold (fst s) \<le> int (length ts)"
  shows "state (fst (calls (failing ts) s)) = Open"
proof -
  from failing_run[OF assms(1,2)] assms(3) assms(1)
  have "state (fst (calls (failing ts) s)) \<noteq> HalfOpen" "state (fst (calls (failing ts) s)) \<noteq> Closed"
    by (auto simp: Let_def cb_inv_def)
  then show ?thesis by (cases "state (fst (calls (failing ts) s))") auto
qed

lemma closed_success_run:
  "state cb = Closed \<Longrightarrow>
   state (fst (calls (succeeding ts) (cb, n))) = Closed \<and>
   failures (fst (calls (succeeding ts) (cb, n))) = (if ts = [] then failures cb else 0)"
proof (induction ts arbitrary: cb n)
  case Nil
  then show ?case by (simp add: succeeding_def)
next
  case (Cons t ts)
  obtain now now' where t: "t = (now, now')" by (cases t)
  have step: "call (now, now', True) (cb, n) = (cb\<lparr>failures := 0\<rparr>, Suc n)"
    using Cons.prems by (simp add: call_cases onSuccess_def)
  have "state (cb\<lparr>failures := 0\<rparr>) = Closed" using Cons.prems by simp
  from Cons.IH[OF this, of "Suc n"] show ?case
    using step t by (simp add: succeeding_def)
qed

lemma halfopen_success_run:
  "state cb = HalfOpen \<Longrightarrow>
   (let cb' = fst (calls (succeeding ts) (cb, n)) in
      if ts \<noteq> [] \<and> halfOpenRequests cb \<le> halfOpenSuccesses cb + int (length ts)
      then state cb' = Closed \<and> failures cb' = 0
      else state cb' = HalfOpen \<and> halfOpenSuccesses cb' = halfOpenSuccesses cb + int (length ts)
           \<and> halfOpenRequests cb' = halfOpenRequests cb)"
proof (induction ts arbitrary: cb n)
  case Nil
  then show ?case by (simp add: succeeding_def)
next
  case (Cons t ts)
  obtain now now' where t: "t = (now, now')" by (cases t)
  have step: "call (now, now', True) (cb, n) = (onSuccess cb, Suc n)"
    using Cons.prems by (simp add: call_cases)
  have run: "calls (succeeding (t # ts)) (cb, n) = calls (succeeding ts) (onSuccess cb, Suc n)"
    using step t by (simp add: succeeding_def)
  show ?case
  proof (cases "halfOpenRequests cb \<le> halfOpenSuccesses cb + 1")
    case True
    then have c: "state (onSuccess cb) = Closed" "failures (onSuccess cb) = 0"
      using Cons.prems by (simp_all add: onSuccess_def Let_def)
    from closed_success_run[OF c(1), of ts "Suc n"] c(2) True run
    show ?thesis by (auto simp: Let_def)
  next
    case False
    then have h: "state (onSuccess cb) = HalfOpen"
      "halfOpenSuccesses (onSuccess cb) = halfOpenSuccesses cb + 1"
      "halfOpenRequests (onSuccess cb) = halfOpenRequests cb"
      using Cons.prems by (simp_all add: onSuccess_def Let_def)
    from Cons.IH[OF h(1), of "Suc n"] h(2,3) False run
    show ?thesis by (cases "ts = []") (auto simp: Let_def)
  qed
qed

lemma probe_enters_halfopen:
  "state cb = Open \<Longrightarrow> nextAttempt cb \<le> now \<Longrightarrow>
   execute now now' h fn fallback (cb, s) =
   execute now now' h fn fallback (cb\<lparr>state := HalfOpen, halfOpenSuccesses := 0\<rparr>, s)"
  by (simp add: execute_def admit_def)

lemma probe_success_run:
  assumes "state cb = Open" "nextAttempt cb \<le> now"
  shows "(let cb' = fst (calls (succeeding ((now, now') # ts)) (cb, n)) in
      if halfOpenRequests cb \<le> 1 + int (length ts)
      then state cb' = Closed \<and> failures cb' = 0
      else state cb' = HalfOpen)"
proof -
  let ?h = "cb\<lparr>state := HalfOpen, halfOpenSuccesses := 0\<rparr>"
  have "call (now, now', True) (cb, n) = call (now, now', True) (?h, n)"
    using assms by (simp add: call_def probe_enters_halfopen)
  then have "calls (succeeding ((now, now') # ts)) (cb, n) = calls (succeeding ((now, now') # ts)) (?h, n)"
    by (simp add: succeeding_def)
  moreover have "state ?h = HalfOpen" by simp
  from halfopen_success_run[OF this, of "(now, now') # ts" n]
  have "(let cb' = fst (calls (succeeding ((now, now') # ts)) (?h, n)) in
      if halfOpenRequests cb \<le> 1 + int (length ts)
      then state cb' = Closed \<and> failures cb' = 0
      else state cb' = HalfOpen)" by (auto simp: Let_def)
  ultimately show ?thesis by simp
qed

lemma halfopen_failure_reopens:
  assumes "cb_inv cb" "state cb = HalfOpen \<or> (state cb = Open \<and> nextAttempt cb \<le> now)"
  shows "call (now, now', False) (cb, n) =
         ((if state cb = Open then cb\<lparr>state := HalfOpen, halfOpenSuccesses := 0\<rparr> else cb)
            \<lparr>failures := failures cb + 1, state := Open, nextAttempt := now' + timeout cb\<rparr>, Suc n)"
  using assms by (auto simp: call_cases cb_inv_def onFailure_def Let_def)

text \<open>
  What awaited calls do (no call is started while another is in flight). A new breaker is
  closed with no failure counted, and the defaults are a threshold of 5, a cool-down of
  30000 ms and 3 half-open requests. From any state reached by awaited calls, a run of at
  least \<open>threshold\<close> (and at least one) calls whose primary fails leaves it open. While it
  is open and the cool-down has not elapsed, \<open>execute\<close> is the fallback alone. The first
  \<open>execute\<close> at or after \<open>nextAttempt\<close> runs as from the half-open state with no success
  counted, and attempts the primary. From there, consecutive successes leave it half-open
  until the \<open>halfOpenRequests\<close>-th, which closes it and resets the failure count. A failure
  while half-open (the probe included) reopens it, with \<open>nextAttempt\<close> set to the time of
  the failure plus the cool-down.
\<close>

lemma awaited_calls_follow_state_machine:
  "(state (new_CircuitBreaker th tm hr) = Closed \<and> failures (new_CircuitBreaker th tm hr) = 0
    \<and> threshold (new_CircuitBreaker None tm hr) = 5
    \<and> timeout (new_CircuitBreaker th None hr) = 30000
    \<and> halfOpenRequests (new_CircuitBreaker th tm None) = 3)
   \<and> (\<forall>cs ts. ts \<noteq> [] \<and> threshold (new_CircuitBreaker th tm hr) \<le> int (length ts) \<longrightarrow>
          state (fst (calls (failing ts) (calls cs (new_CircuitBreaker th tm hr, 0)))) = Open)
   \<and> (\<forall>cb now. state cb = Open \<and> now < nextAttempt cb \<longrightarrow>
          execute now now' h fn fallback (cb, s) = fallback (cb, s))
   \<and> (\<forall>cb now. state cb = Open \<and> nextAttempt cb \<le> now \<longrightarrow>
          execute now now' h fn fallback (cb, s) =
            execute now now' h fn fallback (cb\<lparr>state := HalfOpen, halfOpenSuccesses := 0\<rparr>, s)
          \<and> snd (call (now, now', ok) (cb, n)) = Suc n)
   \<and> (\<forall>cb now ts. state cb = Open \<and> nextAttempt cb \<le> now \<longrightarrow>
          (let cb' = fst (calls (succeeding ((now, now') # ts)) (cb, n)) in
             if halfOpenRequests cb \<le> 1 + int (length ts)
             then state cb' = Closed \<and> failures cb' = 0
             else state cb' = HalfOpen))
   \<and> (\<forall>cs now. (let s = calls cs (new_CircuitBreaker th tm hr, 0) in
          state (fst s) = HalfOpen \<or> (state (fst s) = Open \<and> nextAttempt (fst s) \<le> now) \<longrightarrow>
          (let s' = call (now, now', False) s in
             state (fst s') = Open \<and> nextAttempt (fst s') = now' + timeout (new_CircuitBreaker th tm hr)
             \<and> snd s' = Suc (snd s))))"
proof (intro conjI allI impI)
  show "state (new_CircuitBreaker th tm hr) = Closed" "failures (new_CircuitBreaker th tm hr) = 0"
    "threshold (new_CircuitBreaker None tm hr) = 5" "timeout (new_CircuitBreaker th None hr) = 30000"
    "halfOpenRequests (new_CircuitBreaker th tm None) = 3"
    by (simp_all add: new_CircuitBreaker_def)
next
  fix cs :: "(int \<times> int \<times> bool) list" and ts :: "(int \<times> int) list"
  assume a: "ts \<noteq> [] \<and> threshold (new_CircuitBreaker th tm hr) \<le> int (length ts)"
  let ?s = "calls cs (new_CircuitBreaker th tm hr, 0)"
  have inv: "cb_inv (fst ?s)" using calls_inv[of "(new_CircuitBreaker th tm hr, 0)" cs] new_inv by simp
  have "threshold (fst ?s) = threshold (new_CircuitBreaker th tm hr)"
    using calls_config[of cs "(new_CircuitBreaker th tm hr, 0)"] by simp
  with a opens_after_threshold[OF inv, of ts] show "state (fst (calls (failing ts) ?s)) = Open" by simp
next
  fix cb :: CircuitBreaker and now :: int
  assume "state cb = Open \<and> now < nextAttempt cb"
  then show "execute now now' h fn fallback (cb, s) = fallback (cb, s)"
    by (simp add: execute_def admit_def)
next
  fix cb :: CircuitBreaker and now :: int
  assume a: "state cb = Open \<and> nextAttempt cb \<le> now"
  then show "execute now now' h fn fallback (cb, s) =
            execute now now' h fn fallback (cb\<lparr>state := HalfOpen, halfOpenSuccesses := 0\<rparr>, s)"
    by (simp add: probe_enters_halfopen)
  from a show "snd (call (now, now', ok) (cb, n)) = Suc n"
    by (simp add: call_cases Let_def)
next
  fix cb :: CircuitBreaker and now :: int and ts :: "(int \<times> int) list"
  assume a: "state cb = Open \<and> nextAttempt cb \<le> now"
  then show "(let cb' = fst (calls (succeeding ((now, now') # ts)) (cb, n)) in
             if halfOpenRequests cb \<le> 1 + int (length ts)
             then state cb' = Closed \<and> failures cb' = 0
             else state cb' = HalfOpen)"
    using probe_success_run[of cb now now' ts n] by simp
next
  fix cs :: "(int \<times> int \<times> bool) list" and now :: int
  let ?s = "calls cs (new_CircuitBreaker th tm hr, 0)"
  obtain cb n where s: "?s = (cb, n)" by (cases ?s)
  have inv: "cb_inv cb" using calls_inv[of "(new_CircuitBreaker th tm hr, 0)" cs] new_inv s by simp
  have tm: "timeout cb = timeout (new_CircuitBreaker th tm hr)"
    using calls_config[of cs "(new_CircuitBreaker th tm hr, 0)"] s by simp
  show "(let s = ?s in
          state (fst s) = HalfOpen \<or> (state (fst s) = Open \<and> nextAttempt (fst s) \<le> now) \<longrightarrow>
          (let s' = call (now, now', False) s in
             state (fst s') = Open \<and> nextAttempt (fst s') = now' + timeout (new_CircuitBreaker th tm hr)
             \<and> snd s' = Suc (snd s)))"
    unfolding s Let_def
  proof
    assume "state (fst (cb, n)) = HalfOpen \<or> (state (fst (cb, n)) = Open \<and> nextAttempt (fst (cb, n)) \<le> now)"
    then have "state cb = HalfOpen \<or> (state cb = Open \<and> nextAttempt cb \<le> now)" by simp
    from halfopen_failure_reopens[OF inv this, of now' n] tm
    show "state (fst (call (now, now', False) (cb, n))) = Open \<and>
          nextAttempt (fst (call (now, now', False) (cb, n))) = now' + timeout (new_CircuitBreaker th tm hr) \<and>
          snd (call (now, now', False) (cb, n)) = Suc (snd (cb, n))" by simp
  qed
qed

text \<open>An awaited call is an \<open>Enter\<close> followed at once by the settlement of its primary.\<close>

lemma call_is_enter_then_settle:
  "fst (call (now, now', ok) (cb, n))
   = fst (steps [Enter now, if ok then Resolve else Reject now'] (cb, 0))"
  by (simp add: call_cases steps_def admit_def Let_def)

lemmas cb_eval = call_def execute_def admit_def beside_def attempt_def use_fallback_def
  onFailure_def onSuccess_def new_CircuitBreaker_def failing_def succeeding_def steps_def Let_def

text \<open>
  Claim C2. The state machine of the claim is what awaited calls follow
  (\<open>awaited_calls_follow_state_machine\<close>), but \<open>execute\<close> suspends at \<open>await fn()\<close>, calls
  overlap, and then the breaker leaves it. With the defaults (threshold 5, cool-down 30000
  ms, 3 half-open requests): five failures open the breaker until 30004. At 40000 a call A
  enters as the probe (half-open); while its primary is in flight, a call B enters at 40001
  and its primary fails at 40002, which reopens the breaker until 70002; then the primary
  of A succeeds, and \<open>onSuccess\<close>, finding the breaker open, takes its \<open>else\<close> branch and
  sets the failure count to 0. The breaker is now open with no failure counted. The probe
  at 80000 makes it half-open, and its failure at 80001 counts as the first of five: the
  breaker stays half-open, with the cool-down clock where it was, and goes on attempting
  the primary. The same run is given twice: as interleaved steps, and with \<open>execute\<close>
  itself, the call B running while the primary of A is in flight.
\<close>

theorem half_open_failure_after_overlap_does_not_reopen:
  "calls (failing [(0, 0), (1, 1), (2, 2), (3, 3), (4, 4)]) (new_CircuitBreaker None None None, 0)
     = (\<lparr>state = Open, failures = 5, nextAttempt = 30004, halfOpenSuccesses = 0,
         threshold = 5, timeout = 30000, halfOpenRequests = 3\<rparr>, 5)
   \<and> steps [Enter 40000, Enter 40001, Reject 40002, Resolve]
        (\<lparr>state = Open, failures = 5, nextAttempt = 30004, halfOpenSuccesses = 0,
          threshold = 5, timeout = 30000, halfOpenRequests = 3\<rparr>, 0)
     = (\<lparr>state = Open, failures = 0, nextAttempt = 70002, halfOpenSuccesses = 0,
         threshold = 5, timeout = 30000, halfOpenRequests = 3\<rparr>, 0)
   \<and> steps [Enter 80000]
        (\<lparr>state = Open, failures = 0, nextAttempt = 70002, halfOpenSuccesses = 0,
          threshold = 5, timeout = 30000, halfOpenRequests = 3\<rparr>, 0)
     = (\<lparr>state = HalfOpen, failures = 0, nextAttempt = 70002, halfOpenSuccesses = 0,
         threshold = 5, timeout = 30000, halfOpenRequests = 3\<rparr>, 1)
   \<and> steps [Enter 80000, Reject 80001]
        (\<lparr>state = Open, failures = 0, nextAttempt = 70002, halfOpenSuccesses = 0,
          threshold = 5, timeout = 30000, halfOpenRequests = 3\<rparr>, 0)
     = (\<lparr>state = HalfOpen, failures = 1, nextAttempt = 70002, halfOpenSuccesses = 0,
         threshold = 5, timeout = 30000, halfOpenRequests = 3\<rparr>, 0)
   \<and> execute 40000 40003 None
        (\<lambda>st. (Inr ''success'',
                snd (execute 40001 40002 None (beside (attempt False)) (beside use_fallback) st)))
        (beside use_fallback)
        (\<lparr>state = Open, failures = 5, nextAttempt = 30004, halfOpenSuccesses = 0,
          threshold = 5, timeout = 30000, halfOpenRequests = 3\<rparr>, 5)
     = (Inr ''success'',
        (\<lparr>state = Open, failures = 0, nextAttempt = 70002, halfOpenSuccesses = 0,
          threshold = 5, timeout = 30000, halfOpenRequests = 3\<rparr>, 6))
   \<and> call (80000, 80001, False)
        (\<lparr>state = Open, failures = 0, nextAttempt = 70002, halfOpenSuccesses = 0,
          threshold = 5, timeout = 30000, halfOpenRequests = 3\<rparr>, 6)
     = (\<lparr>state = HalfOpen, failures = 1, nextAttempt = 70002, halfOpenSuccesses = 0,
         threshold = 5, timeout = 30000, halfOpenRequests = 3\<rparr>, 7)"
  by (simp add: cb_eval)

section \<open>The keys an operation leaves alone\<close>

lemma preserves_same_redis:
  "(\<And>w. redis (snd (m w)) = redis w) \<Longrightarrow> preserves (\<lambda>w. Q (redis w)) m"
  by (simp add: preserves_def)

lemma preserves_disj:
  "preserves A m \<Longrightarrow> preserves B m \<Longrightarrow> preserves (\<lambda>w. A w \<or> B w) m"
  by (auto simp: preserves_def)

lemma preserves_fold:
  "preserves P m0 \<Longrightarrow> (\<And>x m. x \<in> set xs \<Longrightarrow> preserves P m \<Longrightarrow> preserves P (f x m)) \<Longrightarrow>
   preserves P (fold f xs m0)"
  by (induction xs arbitrary: m0) simp_all

lemma preserves_publish: "preserves (\<lambda>w. Q (redis w)) (publish msg)"
  by (simp add: preserves_def publish_def)

lemma preserves_emit_redis: "preserves (\<lambda>w. Q (redis w)) (emit ev)"
  by (cases ev) (simp_all add: preserves_def emit_def)

lemma preserves_invoke_fetch: "preserves (\<lambda>w. Q (redis w)) (invoke_fetch cfg args)"
  by (simp add: preserves_def invoke_fetch_def split: option.splits)

lemma preserves_schedule: "preserves (\<lambda>w. Q (redis w)) (schedule_revalidation args)"
  by (simp add: preserves_def schedule_revalidation_def)

lemma preserves_Deduplicator_run:
  "preserves (\<lambda>w. Q (redis w)) fn \<Longrightarrow> preserves (\<lambda>w. Q (redis w)) (Deduplicator_run k fn)"
  by (auto simp: preserves_def Deduplicator_run_def split: option.splits prod.splits)

text \<open>Deleting a key leaves every key as it was or absent.\<close>

lemma redis_del_weak:
  "keyspace (snd (redis_del now keys r)) k = keyspace r k
   \<or> keyspace (snd (redis_del now keys r)) k = None"
  by (simp add: redis_del_def await_def ret_def send_def)

lemma preserves_del:
  "preserves (\<lambda>w. keyspace (redis w) k = c \<or> keyspace (redis w) k = None) (on_redis (redis_del now keys))"
proof (rule preservesI)
  fix w :: "'a world"
  assume "keyspace (redis w) k = c \<or> keyspace (redis w) k = None"
  with redis_del_weak[of now keys "redis w" k]
  show "keyspace (redis (snd (on_redis (redis_del now keys) w))) k = c
        \<or> keyspace (redis (snd (on_redis (redis_del now keys) w))) k = None"
    by (auto simp: on_redis_proj)
qed

lemma preserves_weak:
  "(\<And>c. preserves (\<lambda>w. keyspace (redis w) k = c) m) \<Longrightarrow>
   preserves (\<lambda>w. keyspace (redis w) k = c \<or> keyspace (redis w) k = None) m"
  by (rule preserves_disj)

text \<open>The circuit breaker adds nothing to what its two functions and the handler do.\<close>

lemma through_breaker_frame:
  assumes fn: "preserves (\<lambda>w. Q (redis w)) fn" and fb: "preserves (\<lambda>w. Q (redis w)) fallback"
  shows "preserves (\<lambda>w. Q (redis w)) (through_breaker now fn fallback)"
proof (rule preservesI)
  fix w :: "'a world"
  assume q: "Q (redis w)"
  show "Q (redis (snd (through_breaker now fn fallback w)))"
  proof (cases "state (circuitBreaker w) = Open \<and> now < nextAttempt (circuitBreaker w)")
    case True
    then show ?thesis using preservesD[OF fb q] by (simp add: through_breaker_refused)
  next
    case False
    let ?w = "w\<lparr>circuitBreaker := snd (admit now (circuitBreaker w))\<rparr>"
    have q1: "Q (redis (snd (fn ?w)))" using preservesD[OF fn, of ?w] q by simp
    obtain r w1 where f: "fn ?w = (r, w1)" by (cases "fn ?w")
    with q1 have qw1: "Q (redis w1)" by simp
    show ?thesis
    proof (cases r)
      case (Inr x)
      from through_breaker_success[where fn = fn, OF False f[unfolded Inr]] qw1 show ?thesis by simp
    next
      case (Inl e)
      show ?thesis
      proof (cases "instanceof_Error e \<and> \<not> error_listener w1")
        case True
        from through_breaker_unheard[where fn = fn, OF False f[unfolded Inl]] True qw1 show ?thesis by simp
      next
        case False
        let ?w2 = "w1\<lparr>emitted := (if instanceof_Error e then emitted w1 @ [ErrorEvent e] else emitted w1),
                       circuitBreaker := onFailure now (circuitBreaker w1)\<rparr>"
        obtain cb1 where a: "admit now (circuitBreaker w) = (True, cb1)"
          using \<open>\<not> (state (circuitBreaker w) = Open \<and> now < nextAttempt (circuitBreaker w))\<close>
            admit_fst[of now "circuitBreaker w"] by (cases "admit now (circuitBreaker w)") auto
        from f Inl have f1: "fn (w\<lparr>circuitBreaker := cb1\<rparr>) = (Inl e, w1)" by (simp add: a)
        have "through_breaker now fn fallback w = fallback ?w2"
          using False
          by (cases "instanceof_Error e")
             (simp_all add: through_breaker_def execute_def a with_breaker_apply f1 emit_def)
        moreover have "Q (redis (snd (fallback ?w2)))" using preservesD[OF fb, of ?w2] qw1 by simp
        ultimately show ?thesis by simp
      qed
    qed
  qed
qed

text \<open>What \<open>set\<close>, \<open>get\<close> and \<open>setMany\<close> leave alone.\<close>

lemma resetTTL_frame:
  "k \<noteq> k' \<Longrightarrow> preserves (\<lambda>w. keyspace (redis w) k = c) (resetTTL now cfg k' v)"
  unfolding resetTTL_def
  by (auto intro!: preserves_on_redis simp: redis_frames split: option.splits)

lemma fetchAndCache_frame:
  assumes "mode env = Server \<longrightarrow> k \<noteq> buildKey env cfg args"
    and "mode env = Serverless \<longrightarrow> k \<noteq> versionKey (prefix env) (buildKey env cfg args)
           \<and> (\<forall>N. k \<noteq> versionedKey (prefix env) (buildKey env cfg args) N)"
    and "k \<noteq> patternKey (prefix env) (split CHR '':'' (buildKey env cfg args) ! 1)"
    and "\<forall>tags. config_tags cfg = Some tags \<longrightarrow> k \<notin> tagKey (prefix env) ` set (tags args)"
  shows "preserves (\<lambda>w. keyspace (redis w) k = c) (fetchAndCache now cfg env args)"
  unfolding fetchAndCache_def
  by (intro preserves_if preserves_ret preserves_await set_value_frame[OF assms]
        preserves_invoke_fetch[where Q = "\<lambda>r. keyspace r k = c"])

lemma get_local_frame:
  "k \<noteq> buildKey env cfg args \<Longrightarrow>
   preserves (\<lambda>w. keyspace (redis w) k = c) (get_local gt now cfg env args)"
proof (rule preservesI)
  fix w :: "'a world"
  assume ne: "k \<noteq> buildKey env cfg args" and p: "keyspace (redis w) k = c"
  let ?k = "buildKey env cfg args"
  show "keyspace (redis (snd (get_local gt now cfg env args w))) k = c"
  proof (cases "localCache w")
    case None
    then show ?thesis using p by (simp add: get_local_absent)
  next
    case (Some lc)
    obtain found lc1 where g: "LocalCache_get now ?k lc = (found, lc1)" by (cases "LocalCache_get now ?k lc")
    show ?thesis
    proof (cases found)
      case None
      from get_local_none[OF Some g[unfolded None]] p show ?thesis by simp
    next
      case (Some v)
      note g' = g[unfolded Some]
      show ?thesis
      proof (cases "isPastStale (unwrapValue gt now v)")
        case True
        from get_local_past_stale[OF \<open>localCache w = Some lc\<close> g' True] p show ?thesis by simp
      next
        case False
        show ?thesis
        proof (cases "isStale (unwrapValue gt now v) \<and> config_fetch cfg \<noteq> None")
          case True
          then have st: "isStale (unwrapValue gt now v)" and fe: "config_fetch cfg \<noteq> None" by simp_all
          from get_local_stale[OF \<open>localCache w = Some lc\<close> g' False st fe] p show ?thesis by simp
        next
          case nst: False
          let ?w1 = "w\<lparr>localCache := Some lc1\<rparr>"
          have run: "get_local gt now cfg env args w
                = (await (if isSliding cfg then resetTTL now cfg ?k (Some (data (unwrapValue gt now v))) else ret ()) (\<lambda>_.
                    await (emit (HitEvent ?k ''local'')) (\<lambda>_.
                    ret (Some (data (unwrapValue gt now v)))))) ?w1"
            using \<open>localCache w = Some lc\<close> g' False nst by (auto simp: get_local_def Let_def)
          have "preserves (\<lambda>w. keyspace (redis w) k = c)
                  (await (if isSliding cfg then resetTTL now cfg ?k (Some (data (unwrapValue gt now v))) else ret ()) (\<lambda>_.
                    await (emit (HitEvent ?k ''local'')) (\<lambda>_.
                    ret (Some (data (unwrapValue gt now v))))))"
            by (intro preserves_await preserves_if preserves_ret resetTTL_frame[OF ne]
                  preserves_emit_redis[where Q = "\<lambda>r. keyspace r k = c"])
          from preservesD[OF this, of ?w1] p show ?thesis by (simp add: run)
        qed
      qed
    qed
  qed
qed

lemma get_primary_frame:
  assumes "k \<noteq> buildKey env cfg args"
    and "mode env = Serverless \<longrightarrow> k \<noteq> versionKey (prefix env) (buildKey env cfg args)
           \<and> (\<forall>N. k \<noteq> versionedKey (prefix env) (buildKey env cfg args) N)"
    and "k \<noteq> patternKey (prefix env) (split CHR '':'' (buildKey env cfg args) ! 1)"
    and "\<forall>tags. config_tags cfg = Some tags \<longrightarrow> k \<notin> tagKey (prefix env) ` set (tags args)"
  shows "preserves (\<lambda>w. keyspace (redis w) k = c) (get_primary gt now cfg env args)"
proof -
  let ?P = "\<lambda>w :: 'a world. keyspace (redis w) k = c"
  have fc: "preserves ?P (fetchAndCache now cfg env args)"
    using assms by (intro fetchAndCache_frame) simp_all
  have fm: "preserves ?P (fetch_on_miss now cfg env args)"
    unfolding fetch_on_miss_def
    by (intro preserves_if preserves_ret fc preserves_Deduplicator_run[where Q = "\<lambda>r. keyspace r k = c"])
  have lc: "\<And>f. preserves ?P (\<lambda>w. (Inr (), if f then w\<lparr>localCache := map_option
                                 (LocalCache_set now (buildKey env cfg args) (g :: jsval) t) (localCache w)\<rparr> else w))"
    for g t by (simp add: preserves_def)
  show ?thesis
    unfolding get_primary_def Let_def
    by (intro preserves_await preserves_option preserves_if preserves_ret preserves_attempted fm
          preserves_on_redis redis_frames(1)[OF assms(1)] resetTTL_frame[OF assms(1)]
          preserves_emit_redis[where Q = "\<lambda>r. keyspace r k = c"]
          preserves_schedule[where Q = "\<lambda>r. keyspace r k = c"] lc)
qed

text \<open>Reading changes nothing.\<close>

lemma redis_reads:
  "keyspace (snd (redis_get now k' r)) = keyspace r"
  "keyspace (snd (redis_smembers now k' r)) = keyspace r"
  "keyspace (snd (redis_mget now keys r)) = keyspace r"
  by (auto simp: redis_get_def redis_smembers_def redis_mget_def await_def ret_def send_def
           split: option.splits prod.splits rvalue.splits)

lemma preserves_read:
  "(\<And>r. keyspace (snd (m r)) = keyspace r) \<Longrightarrow>
   preserves (\<lambda>w. Q (keyspace (redis w))) (on_redis m)"
  by (simp add: preserves_def on_redis_proj)

lemma VersionedCache_get_frame:
  "preserves (\<lambda>w. Q (keyspace (redis w))) (VersionedCache_get now env k')"
  unfolding VersionedCache_get_def Let_def
  by (intro preserves_await preserves_option preserves_ret preserves_attempted preserves_read
        redis_reads)

lemma get_serverless_frame:
  assumes "k \<noteq> versionKey (prefix env) (buildKey env cfg args)"
    and "\<forall>N. k \<noteq> versionedKey (prefix env) (buildKey env cfg args) N"
    and "k \<noteq> patternKey (prefix env) (split CHR '':'' (buildKey env cfg args) ! 1)"
    and "\<forall>tags. config_tags cfg = Some tags \<longrightarrow> k \<notin> tagKey (prefix env) ` set (tags args)"
  shows "preserves (\<lambda>w. keyspace (redis w) k = c) (get_serverless now cfg env args)"
  unfolding get_serverless_def Let_def
  using assms
  by (intro preserves_await preserves_option preserves_if preserves_ret preserves_attempted
        VersionedCache_get_frame[where Q = "\<lambda>ks. ks k = c"]
        preserves_emit_redis[where Q = "\<lambda>r. keyspace r k = c"]
        preserves_invoke_fetch[where Q = "\<lambda>r. keyspace r k = c"]
        VersionedCache_set_frame trackKey_frame addTags_frame) auto

lemma get_frame:
  assumes "mode env = Server \<longrightarrow> k \<noteq> buildKey env cfg args"
    and "mode env = Serverless \<longrightarrow> k \<noteq> versionKey (prefix env) (buildKey env cfg args)
           \<and> (\<forall>N. k \<noteq> versionedKey (prefix env) (buildKey env cfg args) N)"
    and "k \<noteq> patternKey (prefix env) (split CHR '':'' (buildKey env cfg args) ! 1)"
    and "\<forall>tags. config_tags cfg = Some tags \<longrightarrow> k \<notin> tagKey (prefix env) ` set (tags args)"
  shows "preserves (\<lambda>w. keyspace (redis w) k = c) (get gt now cfg env args)"
proof (cases "mode env")
  case Serverless
  with assms show ?thesis
    by (simp add: get_def get_serverless_frame)
next
  case Server
  with assms have ne: "k \<noteq> buildKey env cfg args" by simp
  have p: "preserves (\<lambda>w. keyspace (redis w) k = c) (get_primary gt now cfg env args)"
    using assms ne by (intro get_primary_frame) simp_all
  have f: "preserves (\<lambda>w. keyspace (redis w) k = c) (get_fallback now cfg env args)"
    unfolding get_fallback_def using assms
    by (intro preserves_if preserves_ret fetchAndCache_frame) simp_all
  have t: "preserves (\<lambda>w. keyspace (redis w) k = c)
             (through_breaker now (get_primary gt now cfg env args) (get_fallback now cfg env args))"
    using through_breaker_frame[where Q = "\<lambda>r. keyspace r k = c", OF p f] .
  show ?thesis
    using Server unfolding get_def
    by (simp only: mode.simps if_False)
       (intro preserves_await preserves_option preserves_ret get_local_frame[OF ne] t)
qed

text \<open>\<open>setMany\<close> and \<open>warm\<close>.\<close>

lemma queue_entries_frame:
  assumes "\<forall>args \<in> fst ` set entries.
             k \<noteq> patternKey (prefix env) (split CHR '':'' (buildKey env cfg args) ! 1)
             \<and> (\<forall>tags. config_tags cfg = Some tags \<longrightarrow> k \<notin> tagKey (prefix env) ` set (tags args))"
  shows "keyspace (redis (snd (queue_entries now cfg env entries pipeline w))) k = keyspace (redis w) k
       \<and> (\<forall>cmds. fst (queue_entries now cfg env entries pipeline w) = Inr cmds \<longrightarrow>
            \<Union> (command_keys ` set cmds)
            \<subseteq> \<Union> (command_keys ` set pipeline) \<union> buildKey env cfg ` fst ` set entries)"
  using assms
proof (induction entries arbitrary: pipeline w)
  case Nil
  then show ?case by (simp add: ret_def)
next
  case (Cons entry entries)
  obtain args v where e: "entry = (args, v)" by (cases entry)
  let ?k = "buildKey env cfg args"
  let ?P = "\<lambda>w' :: 'a world. keyspace (redis w') k = keyspace (redis w) k"
  from Cons.prems e have here: "k \<noteq> patternKey (prefix env) (split CHR '':'' ?k ! 1)"
      "\<forall>tags. config_tags cfg = Some tags \<longrightarrow> k \<notin> tagKey (prefix env) ` set (tags args)"
    by simp_all
  from Cons.prems have rest: "\<forall>args \<in> fst ` set entries.
             k \<noteq> patternKey (prefix env) (split CHR '':'' (buildKey env cfg args) ! 1)
             \<and> (\<forall>tags. config_tags cfg = Some tags \<longrightarrow> k \<notin> tagKey (prefix env) ` set (tags args))"
    by simp
  show ?case
  proof (cases "serialize (serializer env) v")
    case (Inl err)
    then show ?thesis by (simp add: e Let_def await_apply attempted_def)
  next
    case (Inr serialized)
    let ?cmd = "case getTTL cfg (Some v) of
                  Some seconds \<Rightarrow> (if seconds \<noteq> 0 then SETEX ?k seconds serialized else SET ?k serialized)
                | None \<Rightarrow> SET ?k serialized"
    let ?track = "await (trackKey now env ?k) (\<lambda>_.
                    case config_tags cfg of Some tags \<Rightarrow> addTags now env ?k (tags args) | None \<Rightarrow> ret ())"
    have ck: "command_keys ?cmd = {?k}" by (simp split: option.splits)
    have tp: "preserves ?P ?track"
      using here by (intro preserves_await preserves_option preserves_ret trackKey_frame addTags_frame) auto
    obtain r w1 where t: "?track w = (r, w1)" by (cases "?track w")
    from preservesD[OF tp, of w] t have w1: "keyspace (redis w1) k = keyspace (redis w) k" by simp
    show ?thesis
    proof (cases r)
      case (Inl err)
      have "queue_entries now cfg env (entry # entries) pipeline w = (Inl err, w1)"
        using t Inl Inr
        by (simp add: e Let_def await_apply attempted_def split: prod.splits sum.splits)
      then show ?thesis using w1 by simp
    next
      case (Inr u)
      have run: "queue_entries now cfg env (entry # entries) pipeline w
                 = queue_entries now cfg env entries (pipeline @ [?cmd]) w1"
        using t Inr \<open>serialize (serializer env) v = Inr serialized\<close>
        by (simp add: e Let_def await_apply attempted_def split: prod.splits sum.splits)
      from Cons.IH[OF rest, of "pipeline @ [?cmd]" w1] w1 ck
      show ?thesis unfolding run by (auto simp: e)
    qed
  qed
qed

lemma emit_set_events_frame: "preserves (\<lambda>w. Q (redis w)) (emit_set_events cfg env entries)"
proof (induction entries)
  case Nil
  then show ?case by (simp add: preserves_ret)
next
  case (Cons entry entries)
  obtain args v where e: "entry = (args, v)" by (cases entry)
  show ?case unfolding e emit_set_events.simps
    by (intro preserves_await preserves_attempted preserves_emit_redis Cons.IH)
qed

lemma setMany_frame:
  assumes "\<forall>args \<in> fst ` set entries.
             k \<noteq> buildKey env cfg args
             \<and> k \<noteq> patternKey (prefix env) (split CHR '':'' (buildKey env cfg args) ! 1)
             \<and> (\<forall>tags. config_tags cfg = Some tags \<longrightarrow> k \<notin> tagKey (prefix env) ` set (tags args))"
  shows "keyspace (redis (snd (setMany now cfg env entries w))) k = keyspace (redis w) k"
proof (cases "entries = []")
  case True
  then show ?thesis by (simp add: setMany_def ret_def)
next
  case False
  from assms have a: "\<forall>args \<in> fst ` set entries.
             k \<noteq> patternKey (prefix env) (split CHR '':'' (buildKey env cfg args) ! 1)
             \<and> (\<forall>tags. config_tags cfg = Some tags \<longrightarrow> k \<notin> tagKey (prefix env) ` set (tags args))"
    by simp
  note q = queue_entries_frame[OF a, of now "[]" w]
  obtain r w1 where qe: "queue_entries now cfg env entries [] w = (r, w1)"
    by (cases "queue_entries now cfg env entries [] w")
  from q qe have w1: "keyspace (redis w1) k = keyspace (redis w) k" by simp
  show ?thesis
  proof (cases r)
    case (Inl err)
    then show ?thesis using False qe w1 by (simp add: setMany_def await_apply)
  next
    case (Inr cmds)
    from q qe Inr have "\<Union> (command_keys ` set cmds) \<subseteq> buildKey env cfg ` fst ` set entries" by simp
    with assms have nk: "k \<notin> \<Union> (command_keys ` set cmds)" by auto
    let ?rest = "await (on_redis (exec now cmds)) (\<lambda>_.
        await (\<lambda>w. (Inr (),
                 w\<lparr>localCache :=
                      map_option
                        (fold (\<lambda>(args, v). LocalCache_set now (buildKey env cfg args) v (getTTL cfg (Some v)))
                              entries)
                        (localCache w)\<rparr>)) (\<lambda>_.
        emit_set_events cfg env entries))"
    have "preserves (\<lambda>w' :: 'a world. keyspace (redis w') k = keyspace (redis w) k) ?rest"
      by (intro preserves_await preserves_on_redis exec_frame[OF nk] preserves_local
            emit_set_events_frame[where Q = "\<lambda>r. keyspace r k = keyspace (redis w) k"])
    from preservesD[OF this, of w1] w1
    have "keyspace (redis (snd (?rest w1))) k = keyspace (redis w) k" by simp
    moreover have "setMany now cfg env entries w = ?rest w1"
      using False qe Inr by (simp add: setMany_def await_apply)
    ultimately show ?thesis by simp
  qed
qed

lemma warm_collect_frame:
  "redis (snd (warm_collect cfg entries toSet w)) = redis w
   \<and> (\<forall>xs. fst (warm_collect cfg entries toSet w) = Inr xs \<longrightarrow>
        fst ` set xs \<subseteq> fst ` set toSet \<union> warm_args ` set entries)"
proof (induction cfg entries toSet arbitrary: w rule: warm_collect.induct)
  case (1 cfg toSet)
  then show ?case by (simp add: ret_def)
next
  case (2 cfg args entries toSet)
  show ?case
  proof (cases "config_fetch cfg")
    case None
    with 2(2)[of w] show ?thesis by auto
  next
    case (Some f)
    let ?w1 = "w\<lparr>fetches := Suc (fetches w)\<rparr>"
    show ?thesis
    proof (cases "f args (fetches w)")
      case (Inl err)
      then show ?thesis using Some by (simp add: await_apply invoke_fetch_def)
    next
      case (Inr v)
      have run: "warm_collect cfg (Args args # entries) toSet w
                 = warm_collect cfg entries (if \<not> nullish v then toSet @ [(args, v)] else toSet) ?w1"
        using Some Inr by (simp add: await_apply invoke_fetch_def)
      from 2(1)[of v ?w1] Some show ?thesis unfolding run by (auto split: if_splits)
    qed
  qed
next
  case (3 cfg args v entries toSet)
  show ?case
  proof (cases "v \<noteq> JUndefined")
    case True
    with 3(1)[of w] show ?thesis by auto
  next
    case False
    show ?thesis
    proof (cases "config_fetch cfg")
      case None
      with 3(3)[of w] False show ?thesis by auto
    next
      case (Some f)
      let ?w1 = "w\<lparr>fetches := Suc (fetches w)\<rparr>"
      show ?thesis
      proof (cases "f args (fetches w)")
        case (Inl err)
        then show ?thesis using Some False by (simp add: await_apply invoke_fetch_def)
      next
        case (Inr v')
        have run: "warm_collect cfg (Entry args v # entries) toSet w
                   = warm_collect cfg entries (if \<not> nullish v' then toSet @ [(args, v')] else toSet) ?w1"
          using Some Inr False by (simp add: await_apply invoke_fetch_def)
        from 3(2)[of v' ?w1] Some False show ?thesis unfolding run by (auto split: if_splits)
      qed
    qed
  qed
qed

lemma warm_frame:
  assumes "\<forall>args \<in> warm_args ` set entries.
             k \<noteq> buildKey env cfg args
             \<and> k \<noteq> patternKey (prefix env) (split CHR '':'' (buildKey env cfg args) ! 1)
             \<and> (\<forall>tags. config_tags cfg = Some tags \<longrightarrow> k \<notin> tagKey (prefix env) ` set (tags args))"
  shows "keyspace (redis (snd (warm now cfg env entries w))) k = keyspace (redis w) k"
proof -
  note c = warm_collect_frame[of cfg entries "[]" w]
  obtain r w1 where wc: "warm_collect cfg entries [] w = (r, w1)"
    by (cases "warm_collect cfg entries [] w")
  from c wc have w1: "redis w1 = redis w" by simp
  show ?thesis
  proof (cases r)
    case (Inl err)
    then show ?thesis using wc w1 by (simp add: warm_def await_apply)
  next
    case (Inr toSet)
    from c wc Inr have "fst ` set toSet \<subseteq> warm_args ` set entries" by simp
    with assms have "\<forall>args \<in> fst ` set toSet.
             k \<noteq> buildKey env cfg args
             \<and> k \<noteq> patternKey (prefix env) (split CHR '':'' (buildKey env cfg args) ! 1)
             \<and> (\<forall>tags. config_tags cfg = Some tags \<longrightarrow> k \<notin> tagKey (prefix env) ` set (tags args))"
      by blast
    from setMany_frame[OF this, of now w1] w1 wc Inr show ?thesis
      by (simp add: warm_def await_apply)
  qed
qed

text \<open>The invalidations: what they do not delete they leave alone.\<close>

lemma removeKey_frame:
  "k \<noteq> patternKey (prefix env) (split CHR '':'' k' ! 1) \<Longrightarrow>
   preserves (\<lambda>w. keyspace (redis w) k = c) (removeKey now env k')"
  unfolding removeKey_def by (auto intro!: preserves_on_redis simp: redis_frames)

lemma removeTags_frame:
  "k \<notin> tagKey (prefix env) ` set tags \<Longrightarrow>
   preserves (\<lambda>w. keyspace (redis w) k = c) (removeTags now env k' tags)"
  unfolding removeTags_def by (auto intro!: preserves_on_redis exec_frame)

lemma preserves_local_weak:
  "preserves (\<lambda>w. Q (redis w)) (\<lambda>w. (Inr x, w\<lparr>localCache := f w\<rparr>))"
  by (simp add: preserves_def)

lemma publish_all_frame:
  "preserves (\<lambda>w. Q (redis w)) (fold (\<lambda>k m. await m (\<lambda>_. publish (KeyInvalidation k))) keys (ret ()))"
  by (intro preserves_fold preserves_ret preserves_await preserves_publish)

lemma invalidate_server_frame:
  assumes "mode env = Server"
    and "k \<noteq> patternKey (prefix env) (split CHR '':'' (buildKey env cfg args) ! 1)"
    and "\<forall>tags. config_tags cfg = Some tags \<longrightarrow> k \<notin> tagKey (prefix env) ` set (tags args)"
  shows "preserves (\<lambda>w. keyspace (redis w) k = c \<or> keyspace (redis w) k = None)
           (invalidate now cfg env args)"
proof -
  let ?P = "\<lambda>w :: 'a world. keyspace (redis w) k = c \<or> keyspace (redis w) k = None"
  have dels: "\<And>keys. preserves ?P
     (fold (\<lambda>k' m. await m (\<lambda>_.
              await (on_redis (redis_del now [k'])) (\<lambda>_.
              (\<lambda>w. (Inr (), w\<lparr>localCache := map_option (LocalCache_delete k') (localCache w)\<rparr>)))))
           keys (ret ()))"
    by (intro preserves_fold preserves_ret preserves_await preserves_del
          preserves_local_weak[where Q = "\<lambda>r. keyspace r k = c \<or> keyspace r k = None"])
  show ?thesis
    unfolding invalidate_def Let_def using assms
    by (simp only: mode.simps if_False)
       (intro preserves_await preserves_option preserves_if preserves_ret preserves_del dels
          preserves_local_weak[where Q = "\<lambda>r. keyspace r k = c \<or> keyspace r k = None"]
          preserves_publish[where Q = "\<lambda>r. keyspace r k = c \<or> keyspace r k = None"]
          preserves_emit_redis[where Q = "\<lambda>r. keyspace r k = c \<or> keyspace r k = None"]
          preserves_weak removeKey_frame removeTags_frame, auto)
qed

lemma invalidateMany_frame:
  "preserves (\<lambda>w. keyspace (redis w) k = c \<or> keyspace (redis w) k = None)
     (invalidateMany now cfg env keys)"
  unfolding invalidateMany_def Let_def
  by (intro preserves_await preserves_if preserves_ret preserves_del publish_all_frame
        preserves_local_weak[where Q = "\<lambda>r. keyspace r k = c \<or> keyspace r k = None"])

lemma invalidateKeys_frame:
  "preserves (\<lambda>w. keyspace (redis w) k = c \<or> keyspace (redis w) k = None)
     (invalidateKeys now env keys)"
  unfolding invalidateKeys_def
  by (intro preserves_await preserves_if preserves_ret preserves_del publish_all_frame
        preserves_local_weak[where Q = "\<lambda>r. keyspace r k = c \<or> keyspace r k = None"]
        preserves_emit_redis[where Q = "\<lambda>r. keyspace r k = c \<or> keyspace r k = None"])

lemma VersionedCache_invalidateMany_frame:
  assumes "\<forall>m. k \<noteq> versionKey (prefix env) m"
  shows "preserves (\<lambda>w. keyspace (redis w) k = c) (VersionedCache_invalidateMany now env keys)"
proof -
  have "k \<notin> \<Union> (command_keys ` set (concat (map (\<lambda>k. [INCR (versionKey (prefix env) k),
                                             EXPIRE (versionKey (prefix env) k) 86400]) keys)))"
    using assms by auto
  then show ?thesis
    unfolding VersionedCache_invalidateMany_def
    by (intro preserves_on_redis exec_frame)
qed

lemma getKeysByPattern_frame:
  "preserves (\<lambda>w. Q (keyspace (redis w))) (getKeysByPattern now env pattern)"
  unfolding getKeysByPattern_def Let_def
  by (intro preserves_await preserves_if preserves_ret preserves_read redis_reads)

lemma invalidatePattern_frame:
  assumes "mode env = Serverless \<longrightarrow> (\<forall>m. k \<noteq> versionKey (prefix env) m)"
  shows "preserves (\<lambda>w. keyspace (redis w) k = c \<or> keyspace (redis w) k = None)
           (invalidatePattern now env pattern)"
  unfolding invalidatePattern_def using assms
  by (intro preserves_await preserves_if preserves_ret preserves_del
        getKeysByPattern_frame[where Q = "\<lambda>ks. ks k = c \<or> ks k = None"]
        preserves_local_weak[where Q = "\<lambda>r. keyspace r k = c \<or> keyspace r k = None"]
        preserves_publish[where Q = "\<lambda>r. keyspace r k = c \<or> keyspace r k = None"]
        preserves_emit_redis[where Q = "\<lambda>r. keyspace r k = c \<or> keyspace r k = None"]
        preserves_weak VersionedCache_invalidateMany_frame) simp

lemma invalidateTag_frame:
  assumes "mode env = Serverless \<longrightarrow> (\<forall>m. k \<noteq> versionKey (prefix env) m)"
  shows "preserves (\<lambda>w. keyspace (redis w) k = c \<or> keyspace (redis w) k = None)
           (invalidateTag now env tag)"
  unfolding invalidateTag_def getKeysByTag_def deleteTag_def using assms
  by (intro preserves_await preserves_if preserves_ret preserves_del
        preserves_read[where Q = "\<lambda>ks. ks k = c \<or> ks k = None"] redis_reads
        preserves_local_weak[where Q = "\<lambda>r. keyspace r k = c \<or> keyspace r k = None"]
        preserves_publish[where Q = "\<lambda>r. keyspace r k = c \<or> keyspace r k = None"]
        preserves_emit_redis[where Q = "\<lambda>r. keyspace r k = c \<or> keyspace r k = None"]
        preserves_weak VersionedCache_invalidateMany_frame) simp

lemma getMany_frame: "keyspace (redis (snd (getMany now cfg env keys w))) = keyspace (redis w)"
proof -
  obtain r r' where m: "redis_mget now (map (buildKey env cfg) keys) (redis w) = (r, r')"
    by (cases "redis_mget now (map (buildKey env cfg) keys) (redis w)")
  from redis_reads(3)[of now "map (buildKey env cfg) keys" "redis w"] m
  have "keyspace r' = keyspace (redis w)" by simp
  then show ?thesis
    by (cases r) (simp_all add: getMany_def Let_def await_apply on_redis_def ret_def attempted_def m)
qed

section \<open>What set writes\<close>

lemma wrapped_value_swr:
  assumes "config_staleWhileRevalidate cfg = Some swr" "swr \<noteq> 0"
      "getTTL cfg (Some v) = Some ttl" "ttl \<noteq> 0"
  shows "wrapped_value now cfg v =
           (JObj [(''data'', v), (''expiresAt'', JNum (now + ttl * 1000)),
                  (''staleUntil'', JNum ((now + ttl * 1000) + swr * 1000))],
            Some (ttl + swr))"
  using assms by (simp add: wrapped_value_def Let_def algebra_simps)

lemma wrapped_value_plain:
  assumes "config_staleWhileRevalidate cfg = None \<or> config_staleWhileRevalidate cfg = Some 0
           \<or> getTTL cfg (Some v) = None \<or> getTTL cfg (Some v) = Some 0"
  shows "wrapped_value now cfg v = (v, getTTL cfg (Some v))"
  using assms by (auto simp: wrapped_value_def Let_def split: option.splits)

text \<open>What follows the write in \<open>set\<close> leaves a live string where it is.\<close>

lemma set_value_rest_keeps:
  "preserves (\<lambda>w :: 'args world. live now (keyspace (redis w)) k = Some (RString s, dl))
     (await (trackKey now env k') (\<lambda>_.
      await (case config_tags (cfg :: 'args CacheDefinitionConfig) of
               Some tags \<Rightarrow> addTags now env k' (tags args) | None \<Rightarrow> ret ())
        (\<lambda>_. emit (SetEvent k' t n))))"
proof -
  let ?P = "\<lambda>w :: 'args world. live now (keyspace (redis w)) k = Some (RString s, dl)"
  have t: "\<And>k'. preserves ?P (trackKey now env k')"
    by (intro preservesI) (simp add: trackKey_keeps_string)
  have a: "\<And>k' tags. preserves ?P (addTags now env k' tags)"
    by (intro preservesI) (simp add: addTags_keeps_string)
  show ?thesis
    by (intro preserves_await preserves_option preserves_ret t a preserves_emit) simp
qed

lemma set_value_server_write:
  fixes w :: "'args world"
  assumes srv: "mode env = Server"
    and ser: "serialize (serializer env) (fst (wrapped_value now cfg v)) = Inr s"
    and up: "\<not> fails (redis w) (issued (redis w))"
    and dl: "snd (wrapped_value now cfg v) = Some t \<and> 0 < t \<and> dl = Some (now + t * 1000)
             \<or> (snd (wrapped_value now cfg v) = None \<or> snd (wrapped_value now cfg v) = Some 0)
               \<and> dl = None"
  shows "keyspace (redis (snd (set_value now cfg env args v w))) (buildKey env cfg args)
         = Some (RString s, dl)"
proof -
  let ?k = "buildKey env cfg args"
  define w1 where "w1 = w\<lparr>redis := (redis w)\<lparr>keyspace := (keyspace (redis w))(?k \<mapsto> (RString s, dl)),
                                                issued := Suc (issued (redis w))\<rparr>,
                          localCache := map_option (LocalCache_set now ?k (fst (wrapped_value now cfg v))
                                                      (snd (wrapped_value now cfg v))) (localCache w)\<rparr>"
  have w1: "live now (keyspace (redis w1)) ?k = Some (RString s, dl)"
    using dl by (auto simp: w1_def live_def)
  define rest where "rest = await (trackKey now env ?k) (\<lambda>_.
      await (case config_tags cfg of Some tags \<Rightarrow> addTags now env ?k (tags args) | None \<Rightarrow> ret ())
        (\<lambda>_. emit (SetEvent ?k (getTTL cfg (Some v)) (length s))) :: ('args world, unit) action)"
  have wr: "(if num_truthy (snd (wrapped_value now cfg v))
             then on_redis (redis_setex now ?k (case snd (wrapped_value now cfg v) of Some t \<Rightarrow> t | None \<Rightarrow> 0) s)
             else on_redis (redis_set now ?k s)) w
            = (Inr (), w\<lparr>redis := (redis w)\<lparr>keyspace := (keyspace (redis w))(?k \<mapsto> (RString s, dl)),
                                                issued := Suc (issued (redis w))\<rparr>\<rparr>)"
    using dl
  proof (elim disjE conjE)
    assume "snd (wrapped_value now cfg v) = Some t" "0 < t" "dl = Some (now + t * 1000)"
    then show ?thesis using up
      by (simp add: num_truthy_def on_redis_def redis_setex_def await_apply send_healthy ret_def)
  next
    assume "snd (wrapped_value now cfg v) = None" "dl = None"
    then show ?thesis using up
      by (simp add: num_truthy_def on_redis_def redis_set_def await_apply send_healthy ret_def)
  next
    assume "snd (wrapped_value now cfg v) = Some 0" "dl = None"
    then show ?thesis using up
      by (simp add: num_truthy_def on_redis_def redis_set_def await_apply send_healthy ret_def)
  qed
  have run: "set_value now cfg env args v w = rest w1"
    using srv ser
    by (simp add: set_value_def Let_def await_apply attempted_def wr rest_def w1_def)
  have "preserves (\<lambda>w :: 'args world. live now (keyspace (redis w)) ?k = Some (RString s, dl)) rest"
    unfolding rest_def by (rule set_value_rest_keeps)
  from preservesD[OF this w1]
  have "live now (keyspace (redis (snd (rest w1)))) ?k = Some (RString s, dl)" .
  from live_entry[OF this] run show ?thesis by simp
qed

lemma set_value_server_rejected:
  fixes w :: "'args world"
  assumes srv: "mode env = Server"
    and ser: "serialize (serializer env) (fst (wrapped_value now cfg v)) = Inr s"
    and up: "\<not> fails (redis w) (issued (redis w))"
    and neg: "snd (wrapped_value now cfg v) = Some t" "t < 0"
  shows "set_value now cfg env args v w
         = (Inl (StoreError ''ERR invalid expire time''),
            w\<lparr>redis := (redis w)\<lparr>issued := Suc (issued (redis w))\<rparr>\<rparr>)"
  using assms
  by (simp add: set_value_def Let_def await_apply attempted_def num_truthy_def on_redis_def
        redis_setex_def send_healthy)

text \<open>The version under which \<open>VersionedCache.set\<close> writes, and what it finds there.\<close>

lemma VersionedCache_set_version:
  fixes w :: "'args world"
  assumes up: "healthy (redis w)"
    and cnt: "live now (keyspace (redis w)) (versionKey (prefix env) k) = None \<and> version = ''0''
              \<or> (\<exists>d. live now (keyspace (redis w)) (versionKey (prefix env) k) = Some (RString version, d))
                 \<and> version \<noteq> []"
  shows "\<exists>w1. healthy (redis w1)
           \<and> keyspace (redis w1) (versionedKey (prefix env) k version)
               = keyspace (redis w) (versionedKey (prefix env) k version)
           \<and> VersionedCache_set now env k v ttl w
               = (await (attempted (serialize (serializer env) v)) (\<lambda>serialized.
                    case ttl of
                      Some seconds \<Rightarrow>
                        (if seconds \<noteq> 0
                         then on_redis (redis_setex now (versionedKey (prefix env) k version) seconds serialized)
                         else on_redis (redis_set now (versionedKey (prefix env) k version) serialized))
                    | None \<Rightarrow> on_redis (redis_set now (versionedKey (prefix env) k version) serialized))) w1"
  using cnt
proof
  assume a: "live now (keyspace (redis w)) (versionKey (prefix env) k) = None \<and> version = ''0''"
  then have l0: "live now (keyspace (redis w)) (versionKey (prefix env) k) = None"
    and v0: "version = ''0''" by simp_all
  let ?vk = "versionKey (prefix env) k"
  let ?w1 = "w\<lparr>redis := (redis w)\<lparr>keyspace := (keyspace (redis w))(?vk \<mapsto> (RString ''0'', Some (now + 86400 * 1000))),
                                      issued := Suc (Suc (Suc (issued (redis w))))\<rparr>\<rparr>"
  have ne: "versionedKey (prefix env) k version \<noteq> ?vk"
  proof
    assume "versionedKey (prefix env) k version = ?vk"
    then have "length (versionedKey (prefix env) k version) = length ?vk" by simp
    then show False using a by (simp add: versionedKey_def versionKey_def)
  qed
  show ?thesis
  proof (intro exI[of _ ?w1] conjI)
    show "healthy (redis ?w1)" using up by simp
    show "keyspace (redis ?w1) (versionedKey (prefix env) k version)
          = keyspace (redis w) (versionedKey (prefix env) k version)"
      using ne by simp
    show "VersionedCache_set now env k v ttl w
               = (await (attempted (serialize (serializer env) v)) (\<lambda>serialized.
                    case ttl of
                      Some seconds \<Rightarrow>
                        (if seconds \<noteq> 0
                         then on_redis (redis_setex now (versionedKey (prefix env) k version) seconds serialized)
                         else on_redis (redis_set now (versionedKey (prefix env) k version) serialized))
                    | None \<Rightarrow> on_redis (redis_set now (versionedKey (prefix env) k version) serialized))) ?w1"
      using l0 up unfolding v0
      by (simp add: VersionedCache_set_def await_apply on_redis_def redis_get_def redis_set_def
            redis_expire_def healthy_send ret_def live_def)
  qed
next
  assume a: "(\<exists>d. live now (keyspace (redis w)) (versionKey (prefix env) k) = Some (RString version, d))
                 \<and> version \<noteq> []"
  let ?w1 = "w\<lparr>redis := (redis w)\<lparr>issued := Suc (issued (redis w))\<rparr>\<rparr>"
  show ?thesis
  proof (intro exI[of _ ?w1] conjI)
    show "healthy (redis ?w1)" using up by simp
    show "keyspace (redis ?w1) (versionedKey (prefix env) k version)
          = keyspace (redis w) (versionedKey (prefix env) k version)" by simp
    show "VersionedCache_set now env k v ttl w
               = (await (attempted (serialize (serializer env) v)) (\<lambda>serialized.
                    case ttl of
                      Some seconds \<Rightarrow>
                        (if seconds \<noteq> 0
                         then on_redis (redis_setex now (versionedKey (prefix env) k version) seconds serialized)
                         else on_redis (redis_set now (versionedKey (prefix env) k version) serialized))
                    | None \<Rightarrow> on_redis (redis_set now (versionedKey (prefix env) k version) serialized))) ?w1"
    proof -
      from a obtain d where l: "live now (keyspace (redis w)) (versionKey (prefix env) k) = Some (RString version, d)"
        and ne: "version \<noteq> []" by blast
      show ?thesis
        using l ne up
        by (simp add: VersionedCache_set_def await_apply on_redis_def redis_get_def
              healthy_send ret_def)
    qed
  qed
qed

lemma set_value_serverless_write:
  fixes w :: "'args world"
  assumes srv: "mode env = Serverless"
    and ser: "serialize (serializer env) (fst (wrapped_value now cfg v)) = Inr s"
    and up: "healthy (redis w)"
    and cnt: "live now (keyspace (redis w)) (versionKey (prefix env) (buildKey env cfg args)) = None
                \<and> version = ''0''
              \<or> (\<exists>d. live now (keyspace (redis w)) (versionKey (prefix env) (buildKey env cfg args))
                        = Some (RString version, d)) \<and> version \<noteq> []"
    and dl: "snd (wrapped_value now cfg v) = Some t \<and> 0 < t \<and> dl = Some (now + t * 1000)
             \<or> (snd (wrapped_value now cfg v) = None \<or> snd (wrapped_value now cfg v) = Some 0)
               \<and> dl = None"
  shows "keyspace (redis (snd (set_value now cfg env args v w)))
           (versionedKey (prefix env) (buildKey env cfg args) version)
         = Some (RString s, dl)"
proof -
  let ?k = "buildKey env cfg args"
  let ?vk = "versionedKey (prefix env) ?k version"
  let ?ttl = "snd (wrapped_value now cfg v)"
  from VersionedCache_set_version[OF up cnt, of "fst (wrapped_value now cfg v)" ?ttl]
  obtain w0 where w0: "healthy (redis w0)"
    and vs: "VersionedCache_set now env ?k (fst (wrapped_value now cfg v)) ?ttl w
               = (await (attempted (serialize (serializer env) (fst (wrapped_value now cfg v)))) (\<lambda>serialized.
                    case ?ttl of
                      Some seconds \<Rightarrow>
                        (if seconds \<noteq> 0
                         then on_redis (redis_setex now ?vk seconds serialized)
                         else on_redis (redis_set now ?vk serialized))
                    | None \<Rightarrow> on_redis (redis_set now ?vk serialized))) w0" by blast
  define w1 where "w1 = w0\<lparr>redis := (redis w0)\<lparr>keyspace := (keyspace (redis w0))(?vk \<mapsto> (RString s, dl)),
                                                  issued := Suc (issued (redis w0))\<rparr>\<rparr>"
  have vs1: "VersionedCache_set now env ?k (fst (wrapped_value now cfg v)) ?ttl w = (Inr (), w1)"
    unfolding vs using dl
  proof (elim disjE conjE)
    assume "snd (wrapped_value now cfg v) = Some t" "0 < t" "dl = Some (now + t * 1000)"
    then show "(await (attempted (serialize (serializer env) (fst (wrapped_value now cfg v)))) (\<lambda>serialized.
                    case ?ttl of
                      Some seconds \<Rightarrow>
                        (if seconds \<noteq> 0
                         then on_redis (redis_setex now ?vk seconds serialized)
                         else on_redis (redis_set now ?vk serialized))
                    | None \<Rightarrow> on_redis (redis_set now ?vk serialized))) w0 = (Inr (), w1)"
      using ser w0
      by (simp add: await_apply attempted_def on_redis_def redis_setex_def healthy_send ret_def w1_def)
  next
    assume "snd (wrapped_value now cfg v) = None" "dl = None"
    then show "(await (attempted (serialize (serializer env) (fst (wrapped_value now cfg v)))) (\<lambda>serialized.
                    case ?ttl of
                      Some seconds \<Rightarrow>
                        (if seconds \<noteq> 0
                         then on_redis (redis_setex now ?vk seconds serialized)
                         else on_redis (redis_set now ?vk serialized))
                    | None \<Rightarrow> on_redis (redis_set now ?vk serialized))) w0 = (Inr (), w1)"
      using ser w0
      by (simp add: await_apply attempted_def on_redis_def redis_set_def healthy_send ret_def w1_def)
  next
    assume "snd (wrapped_value now cfg v) = Some 0" "dl = None"
    then show "(await (attempted (serialize (serializer env) (fst (wrapped_value now cfg v)))) (\<lambda>serialized.
                    case ?ttl of
                      Some seconds \<Rightarrow>
                        (if seconds \<noteq> 0
                         then on_redis (redis_setex now ?vk seconds serialized)
                         else on_redis (redis_set now ?vk serialized))
                    | None \<Rightarrow> on_redis (redis_set now ?vk serialized))) w0 = (Inr (), w1)"
      using ser w0
      by (simp add: await_apply attempted_def on_redis_def redis_set_def healthy_send ret_def w1_def)
  qed
  have k1: "live now (keyspace (redis w1)) ?vk = Some (RString s, dl)"
    using dl by (auto simp: w1_def live_def)
  define rest where "rest = (await (trackKey now env ?k) (\<lambda>_.
      await (case config_tags cfg of Some tags \<Rightarrow> addTags now env ?k (tags args) | None \<Rightarrow> ret ())
        (\<lambda>_. emit (SetEvent ?k (getTTL cfg (Some v)) (length s)))) :: ('args world, unit) action)"
  have run: "set_value now cfg env args v w = rest w1"
    using srv ser vs1
    by (simp add: set_value_def Let_def await_apply attempted_def rest_def)
  have "preserves (\<lambda>w :: 'args world. live now (keyspace (redis w)) ?vk = Some (RString s, dl)) rest"
    unfolding rest_def by (rule set_value_rest_keeps)
  from live_entry[OF preservesD[OF this k1]] run show ?thesis by simp
qed

lemma set_value_serverless_rejected:
  fixes w :: "'args world"
  assumes srv: "mode env = Serverless"
    and ser: "serialize (serializer env) (fst (wrapped_value now cfg v)) = Inr s"
    and up: "healthy (redis w)"
    and cnt: "live now (keyspace (redis w)) (versionKey (prefix env) (buildKey env cfg args)) = None
                \<and> version = ''0''
              \<or> (\<exists>d. live now (keyspace (redis w)) (versionKey (prefix env) (buildKey env cfg args))
                        = Some (RString version, d)) \<and> version \<noteq> []"
    and neg: "snd (wrapped_value now cfg v) = Some t" "t < 0"
  shows "fst (set_value now cfg env args v w) = Inl (StoreError ''ERR invalid expire time'')
       \<and> keyspace (redis (snd (set_value now cfg env args v w)))
           (versionedKey (prefix env) (buildKey env cfg args) version)
         = keyspace (redis w) (versionedKey (prefix env) (buildKey env cfg args) version)"
proof -
  let ?k = "buildKey env cfg args"
  let ?vk = "versionedKey (prefix env) ?k version"
  let ?ttl = "snd (wrapped_value now cfg v)"
  from VersionedCache_set_version[OF up cnt, of "fst (wrapped_value now cfg v)" ?ttl]
  obtain w0 where w0: "healthy (redis w0)"
    and same: "keyspace (redis w0) ?vk = keyspace (redis w) ?vk"
    and vs: "VersionedCache_set now env ?k (fst (wrapped_value now cfg v)) ?ttl w
               = (await (attempted (serialize (serializer env) (fst (wrapped_value now cfg v)))) (\<lambda>serialized.
                    case ?ttl of
                      Some seconds \<Rightarrow>
                        (if seconds \<noteq> 0
                         then on_redis (redis_setex now ?vk seconds serialized)
                         else on_redis (redis_set now ?vk serialized))
                    | None \<Rightarrow> on_redis (redis_set now ?vk serialized))) w0" by blast
  have vs1: "VersionedCache_set now env ?k (fst (wrapped_value now cfg v)) ?ttl w
             = (Inl (StoreError ''ERR invalid expire time''),
                w0\<lparr>redis := (redis w0)\<lparr>issued := Suc (issued (redis w0))\<rparr>\<rparr>)"
    unfolding vs using ser w0 neg
    by (simp add: await_apply attempted_def on_redis_def redis_setex_def healthy_send)
  have "set_value now cfg env args v w
        = (Inl (StoreError ''ERR invalid expire time''),
           w0\<lparr>redis := (redis w0)\<lparr>issued := Suc (issued (redis w0))\<rparr>\<rparr>)"
    using srv ser vs1 by (simp add: set_value_def Let_def await_apply attempted_def)
  then show ?thesis using same by simp
qed

text \<open>
  Claim C5, as amended. When \<open>staleWhileRevalidate\<close> is a non-zero number \<open>swr\<close> and the TTL
  resolves to a non-zero number \<open>ttl\<close> (both in seconds), \<open>set\<close> wraps the value as \<open>{data,
  expiresAt, staleUntil}\<close> with \<open>expiresAt = now + ttl * 1000\<close> and \<open>staleUntil = expiresAt +
  swr * 1000\<close> (timestamps in milliseconds), and the expiry it asks of the store is \<open>ttl +
  swr\<close> seconds. When \<open>staleWhileRevalidate\<close> is absent or 0, or the TTL resolves to nothing
  or to 0, the value is stored as it is, and the expiry asked for is the resolved TTL.
  Either way, when the value serializes and the store answers, the key written (in server
  mode the primary key, in serverless mode the versioned key of the current version)
  holds the serialized value: until \<open>now + t * 1000\<close> when the expiry \<open>t\<close> asked for is
  positive, and with no expiry when it is 0 or absent; when it is negative the store
  rejects the write, \<open>set\<close> throws that error, and the key is as it was.
\<close>

theorem set_wraps_value_for_stale_while_revalidate:
  fixes w :: "'args world"
  shows
  "(\<forall>swr ttl. config_staleWhileRevalidate cfg = Some swr \<and> swr \<noteq> 0
              \<and> getTTL cfg (Some v) = Some ttl \<and> ttl \<noteq> 0 \<longrightarrow>
       wrapped_value now cfg v =
         (JObj [(''data'', v), (''expiresAt'', JNum (now + ttl * 1000)),
                (''staleUntil'', JNum ((now + ttl * 1000) + swr * 1000))],
          Some (ttl + swr)))
   \<and> (config_staleWhileRevalidate cfg = None \<or> config_staleWhileRevalidate cfg = Some 0
       \<or> getTTL cfg (Some v) = None \<or> getTTL cfg (Some v) = Some 0 \<longrightarrow>
       wrapped_value now cfg v = (v, getTTL cfg (Some v)))
   \<and> (serialize (serializer env) (fst (wrapped_value now cfg v)) = Inr s \<and> healthy (redis w)
       \<and> (mode env = Server \<and> key = buildKey env cfg args
          \<or> mode env = Serverless \<and> key = versionedKey (prefix env) (buildKey env cfg args) version
            \<and> (live now (keyspace (redis w)) (versionKey (prefix env) (buildKey env cfg args)) = None
                 \<and> version = ''0''
               \<or> (\<exists>d. live now (keyspace (redis w)) (versionKey (prefix env) (buildKey env cfg args))
                         = Some (RString version, d)) \<and> version \<noteq> [])) \<longrightarrow>
       (\<forall>t. snd (wrapped_value now cfg v) = Some t \<and> 0 < t \<longrightarrow>
          keyspace (redis (snd (set_value now cfg env args v w))) key
            = Some (RString s, Some (now + t * 1000)))
       \<and> (snd (wrapped_value now cfg v) = None \<or> snd (wrapped_value now cfg v) = Some 0 \<longrightarrow>
          keyspace (redis (snd (set_value now cfg env args v w))) key = Some (RString s, None))
       \<and> (\<forall>t. snd (wrapped_value now cfg v) = Some t \<and> t < 0 \<longrightarrow>
          fst (set_value now cfg env args v w) = Inl (StoreError ''ERR invalid expire time'')
          \<and> keyspace (redis (snd (set_value now cfg env args v w))) key = keyspace (redis w) key))"
proof (intro conjI allI impI)
  fix swr ttl
  assume "config_staleWhileRevalidate cfg = Some swr \<and> swr \<noteq> 0
              \<and> getTTL cfg (Some v) = Some ttl \<and> ttl \<noteq> 0"
  then show "wrapped_value now cfg v =
         (JObj [(''data'', v), (''expiresAt'', JNum (now + ttl * 1000)),
                (''staleUntil'', JNum ((now + ttl * 1000) + swr * 1000))],
          Some (ttl + swr))"
    by (simp add: wrapped_value_swr)
next
  assume "config_staleWhileRevalidate cfg = None \<or> config_staleWhileRevalidate cfg = Some 0
       \<or> getTTL cfg (Some v) = None \<or> getTTL cfg (Some v) = Some 0"
  then show "wrapped_value now cfg v = (v, getTTL cfg (Some v))"
    by (rule wrapped_value_plain)
next
  let ?k = "buildKey env cfg args"
  let ?cnt = "live now (keyspace (redis w)) (versionKey (prefix env) ?k) = None \<and> version = ''0''
               \<or> (\<exists>d. live now (keyspace (redis w)) (versionKey (prefix env) ?k)
                         = Some (RString version, d)) \<and> version \<noteq> []"
  assume a: "serialize (serializer env) (fst (wrapped_value now cfg v)) = Inr s \<and> healthy (redis w)
       \<and> (mode env = Server \<and> key = ?k
          \<or> mode env = Serverless \<and> key = versionedKey (prefix env) ?k version \<and> (?cnt))"
  then have ser: "serialize (serializer env) (fst (wrapped_value now cfg v)) = Inr s"
    and up: "healthy (redis w)" by simp_all
  then have nf: "\<not> fails (redis w) (issued (redis w))" by (simp add: healthy_def)
  from a consider (server) "mode env = Server" "key = ?k"
    | (serverless) "mode env = Serverless" "key = versionedKey (prefix env) ?k version" "?cnt"
    by blast
  note modes = this
  {
    fix t
    assume t: "snd (wrapped_value now cfg v) = Some t \<and> 0 < t"
    then have dl: "snd (wrapped_value now cfg v) = Some t \<and> 0 < t \<and> Some (now + t * 1000) = Some (now + t * 1000)
             \<or> (snd (wrapped_value now cfg v) = None \<or> snd (wrapped_value now cfg v) = Some 0)
               \<and> Some (now + t * 1000) = None" by simp
    show "keyspace (redis (snd (set_value now cfg env args v w))) key
            = Some (RString s, Some (now + t * 1000))"
    proof (cases rule: modes)
      case server
      from set_value_server_write[OF server(1) ser nf dl] server(2) show ?thesis by simp
    next
      case serverless
      from set_value_serverless_write[OF serverless(1) ser up serverless(3) dl] serverless(2)
      show ?thesis by simp
    qed
  }
  {
    assume z: "snd (wrapped_value now cfg v) = None \<or> snd (wrapped_value now cfg v) = Some 0"
    then have dl: "snd (wrapped_value now cfg v) = Some 0 \<and> (0::int) < 0 \<and> None = Some (now + 0 * 1000)
             \<or> (snd (wrapped_value now cfg v) = None \<or> snd (wrapped_value now cfg v) = Some 0)
               \<and> (None :: int option) = None" by simp
    show "keyspace (redis (snd (set_value now cfg env args v w))) key = Some (RString s, None)"
    proof (cases rule: modes)
      case server
      from set_value_server_write[OF server(1) ser nf dl] server(2) show ?thesis by simp
    next
      case serverless
      from set_value_serverless_write[OF serverless(1) ser up serverless(3) dl] serverless(2)
      show ?thesis by simp
    qed
  }
  {
    fix t
    assume t: "snd (wrapped_value now cfg v) = Some t \<and> t < 0"
    then have t1: "snd (wrapped_value now cfg v) = Some t" and t2: "t < 0" by simp_all
    have "fst (set_value now cfg env args v w) = Inl (StoreError ''ERR invalid expire time'')
          \<and> keyspace (redis (snd (set_value now cfg env args v w))) key = keyspace (redis w) key"
    proof (cases rule: modes)
      case server
      from set_value_server_rejected[OF server(1) ser nf t1 t2, of args] show ?thesis by simp
    next
      case serverless
      from set_value_serverless_rejected[OF serverless(1) ser up serverless(3) t1 t2] serverless(2)
      show ?thesis by simp
    qed
    then show "fst (set_value now cfg env args v w) = Inl (StoreError ''ERR invalid expire time'')"
      "keyspace (redis (snd (set_value now cfg env args v w))) key = keyspace (redis w) key"
      by simp_all
  }
qed

text \<open>
  The claim as stated fails when the TTL resolves to the number 0: with \<open>ttl: {duration: 0}\<close>
  and \<open>staleWhileRevalidate: 60\<close>, \<open>set\<close> stores the bare value, with no expiry at all.
\<close>

theorem set_wraps_value_for_stale_while_revalidate_counterexample:
  "config_staleWhileRevalidate (userCache\<lparr>config_ttl := Some (TTLConfig 0 None),
                                           config_staleWhileRevalidate := Some 60\<rparr>) = Some 60
   \<and> getTTL (userCache\<lparr>config_ttl := Some (TTLConfig 0 None),
                          config_staleWhileRevalidate := Some 60\<rparr>) (Some (user ''1'')) = Some 0
   \<and> keyspace (redis (snd (set_value 1000
          (userCache\<lparr>config_ttl := Some (TTLConfig 0 None), config_staleWhileRevalidate := Some 60\<rparr>)
          (createCache (test_cache Server (table_codec [(user ''1'', ''u1'')])))
          ''1'' (user ''1'')
          (constructed (test_cache Server (table_codec [(user ''1'', ''u1'')])) new_redis))))
        ''test-cache:user:1''
      = Some (RString ''u1'', None)"
  by (simp add: model_eval)

text \<open>
  With \<open>ttl: 60\<close> and \<open>staleWhileRevalidate: 10\<close>, a \<open>set\<close> at time 1000 stores the wrapper
  with \<open>expiresAt = 61000\<close> and \<open>staleUntil = 71000\<close>, to expire 70 seconds later.
\<close>

theorem set_wraps_value_for_stale_while_revalidate_witness:
  "getTTL (userCache\<lparr>config_ttl := Some (TTLNumber 60), config_staleWhileRevalidate := Some 10\<rparr>)
      (Some (user ''1'')) = Some 60
   \<and> wrapped_value 1000
        (userCache\<lparr>config_ttl := Some (TTLNumber 60), config_staleWhileRevalidate := Some 10\<rparr>)
        (user ''1'')
      = (JObj [(''data'', user ''1''), (''expiresAt'', JNum 61000), (''staleUntil'', JNum 71000)], Some 70)
   \<and> keyspace (redis (snd (set_value 1000
          (userCache\<lparr>config_ttl := Some (TTLNumber 60), config_staleWhileRevalidate := Some 10\<rparr>)
          (createCache (test_cache Server (table_codec
             [(JObj [(''data'', user ''1''), (''expiresAt'', JNum 61000), (''staleUntil'', JNum 71000)],
               ''wrapped u1'')])))
          ''1'' (user ''1'')
          (constructed (test_cache Server (table_codec
             [(JObj [(''data'', user ''1''), (''expiresAt'', JNum 61000), (''staleUntil'', JNum 71000)],
               ''wrapped u1'')])) new_redis))))
        ''test-cache:user:1''
      = Some (RString ''wrapped u1'', Some 71000)"
proof -
  let ?cfg = "userCache\<lparr>config_ttl := Some (TTLNumber 60), config_staleWhileRevalidate := Some 10\<rparr>"
  let ?codec = "table_codec
             [(JObj [(''data'', user ''1''), (''expiresAt'', JNum 61000), (''staleUntil'', JNum 71000)],
               ''wrapped u1'')]"
  let ?env = "createCache (test_cache Server ?codec)"
  let ?w = "constructed (test_cache Server ?codec) new_redis :: string world"
  have h: "config_staleWhileRevalidate ?cfg = Some 10 \<and> (10::int) \<noteq> 0
           \<and> getTTL ?cfg (Some (user ''1'')) = Some 60 \<and> (60::int) \<noteq> 0"
    by (simp add: getTTL_def userCache_def)
  note T = set_wraps_value_for_stale_while_revalidate[where cfg = ?cfg
      and v = "user ''1''" and now = 1000 and env = ?env and w = ?w and s = "''wrapped u1''"
      and args = "''1''" and version = "''0''" and key = "''test-cache:user:1''"]
  have wv: "wrapped_value 1000 ?cfg (user ''1'')
      = (JObj [(''data'', user ''1''), (''expiresAt'', JNum 61000), (''staleUntil'', JNum 71000)], Some 70)"
    using T[THEN conjunct1, rule_format, OF h] by simp
  have g: "serialize (serializer ?env) (fst (wrapped_value 1000 ?cfg (user ''1''))) = Inr ''wrapped u1''
           \<and> healthy (redis ?w)
           \<and> (mode ?env = Server \<and> ''test-cache:user:1'' = buildKey ?env ?cfg ''1''
              \<or> mode ?env = Serverless
                \<and> ''test-cache:user:1'' = versionedKey (prefix ?env) (buildKey ?env ?cfg ''1'') ''0''
                \<and> (live 1000 (keyspace (redis ?w)) (versionKey (prefix ?env) (buildKey ?env ?cfg ''1'')) = None
                     \<and> ''0'' = ''0''
                   \<or> (\<exists>d. live 1000 (keyspace (redis ?w)) (versionKey (prefix ?env) (buildKey ?env ?cfg ''1''))
                             = Some (RString ''0'', d)) \<and> ''0'' \<noteq> []))"
    unfolding wv by (simp add: createCache_def constructed_def test_cache_def table_codec_def
                       new_redis_def healthy_def buildKey_def buildCacheKey_def userCache_def)
  have p: "snd (wrapped_value 1000 ?cfg (user ''1'')) = Some 70 \<and> (0::int) < 70"
    unfolding wv by simp
  from T[THEN conjunct2, THEN conjunct2, rule_format, OF g, THEN conjunct1, rule_format, OF p] h wv
  show ?thesis by simp
qed

section \<open>The layout of the persisted keys\<close>

text \<open>
  Claim C6, as amended. Every persisted key follows the documented layout, with two
  differences. The primary key is \<open>{prefix}:{name}:{instanceKey}\<close>; a tag set is
  \<open>{prefix}:tag:{tag}\<close>; the pattern bucket is \<open>{prefix}:pattern:{name}\<close> when neither the
  prefix nor the name contains a colon; the version counter is
  \<open>{prefix}:version:{prefix}:{name}:{instanceKey}\<close>; and the versioned payload key is
  \<open>{prefix}:{prefix}:{name}:{instanceKey}:v{N}\<close>, with the prefix twice, as in the counter.
  No operation persists anything under another key. \<open>set\<close> and \<open>get\<close> leave every key as
  it is but the primary key (server mode) or the counter and the versioned payload keys
  (serverless mode), the pattern bucket and the tag sets of the entry; \<open>setMany\<close> and
  \<open>warm\<close> leave every key as it is but the primary keys, the pattern buckets and the tag
  sets of their entries; \<open>getMany\<close> changes no key. The invalidations write nothing but
  version counters and the sets they remove a key from: a serverless \<open>invalidate\<close> changes
  the counter of the key only; under a server-mode \<open>invalidate\<close> every key but the
  pattern bucket and the tag sets is as it was or deleted; under \<open>invalidateMany\<close>, of a
  definition or of the cache, every key is as it was or deleted; and so it is under
  \<open>invalidatePattern\<close> and \<open>invalidateTag\<close>, except, in serverless mode, for version
  counters.
\<close>

theorem persisted_key_layout:
  fixes w :: "'args world"
  shows
  "buildKey env cfg args = prefix env @ '':'' @ config_name cfg @ '':'' @ config_key cfg args
   \<and> tagKey (prefix env) tag = prefix env @ '':tag:'' @ tag
   \<and> (CHR '':'' \<notin> set (prefix env) \<and> CHR '':'' \<notin> set (config_name cfg) \<longrightarrow>
        3 \<le> length (split CHR '':'' (buildKey env cfg args))
        \<and> patternKey (prefix env) (split CHR '':'' (buildKey env cfg args) ! 1)
           = prefix env @ '':pattern:'' @ config_name cfg)
   \<and> versionKey (prefix env) (buildKey env cfg args)
       = prefix env @ '':version:'' @ prefix env @ '':'' @ config_name cfg @ '':'' @ config_key cfg args
   \<and> versionedKey (prefix env) (buildKey env cfg args) N
       = prefix env @ '':'' @ prefix env @ '':'' @ config_name cfg @ '':'' @ config_key cfg args
         @ '':v'' @ N
   \<and> (\<forall>k. (mode env = Server \<longrightarrow> k \<noteq> buildKey env cfg args)
          \<and> (mode env = Serverless \<longrightarrow> k \<noteq> versionKey (prefix env) (buildKey env cfg args)
                 \<and> (\<forall>N. k \<noteq> versionedKey (prefix env) (buildKey env cfg args) N))
          \<and> k \<noteq> patternKey (prefix env) (split CHR '':'' (buildKey env cfg args) ! 1)
          \<and> (\<forall>tags. config_tags cfg = Some tags \<longrightarrow> k \<notin> tagKey (prefix env) ` set (tags args))
          \<longrightarrow> keyspace (redis (snd (set_value now cfg env args v w))) k = keyspace (redis w) k
            \<and> keyspace (redis (snd (get gt now cfg env args w))) k = keyspace (redis w) k)
   \<and> (\<forall>k. (\<forall>a \<in> fst ` set entries.
              k \<noteq> buildKey env cfg a
              \<and> k \<noteq> patternKey (prefix env) (split CHR '':'' (buildKey env cfg a) ! 1)
              \<and> (\<forall>tags. config_tags cfg = Some tags \<longrightarrow> k \<notin> tagKey (prefix env) ` set (tags a)))
          \<longrightarrow> keyspace (redis (snd (setMany now cfg env entries w))) k = keyspace (redis w) k)
   \<and> (\<forall>k. (\<forall>a \<in> warm_args ` set warmed.
              k \<noteq> buildKey env cfg a
              \<and> k \<noteq> patternKey (prefix env) (split CHR '':'' (buildKey env cfg a) ! 1)
              \<and> (\<forall>tags. config_tags cfg = Some tags \<longrightarrow> k \<notin> tagKey (prefix env) ` set (tags a)))
          \<longrightarrow> keyspace (redis (snd (warm now cfg env warmed w))) k = keyspace (redis w) k)
   \<and> keyspace (redis (snd (getMany now cfg env argss w))) = keyspace (redis w)
   \<and> (\<forall>k. mode env = Serverless \<and> k \<noteq> versionKey (prefix env) (buildKey env cfg args)
          \<longrightarrow> keyspace (redis (snd (invalidate now cfg env args w))) k = keyspace (redis w) k)
   \<and> (\<forall>k. mode env = Server
          \<and> k \<noteq> patternKey (prefix env) (split CHR '':'' (buildKey env cfg args) ! 1)
          \<and> (\<forall>tags. config_tags cfg = Some tags \<longrightarrow> k \<notin> tagKey (prefix env) ` set (tags args))
          \<longrightarrow> keyspace (redis (snd (invalidate now cfg env args w))) k = keyspace (redis w) k
            \<or> keyspace (redis (snd (invalidate now cfg env args w))) k = None)
   \<and> (\<forall>k. (keyspace (redis (snd (invalidateMany now cfg env argss w))) k = keyspace (redis w) k
            \<or> keyspace (redis (snd (invalidateMany now cfg env argss w))) k = None)
          \<and> (keyspace (redis (snd (invalidateKeys now env keys w))) k = keyspace (redis w) k
              \<or> keyspace (redis (snd (invalidateKeys now env keys w))) k = None))
   \<and> (\<forall>k. (mode env = Serverless \<longrightarrow> (\<forall>m. k \<noteq> versionKey (prefix env) m))
          \<longrightarrow> (keyspace (redis (snd (invalidatePattern now env pattern w))) k = keyspace (redis w) k
               \<or> keyspace (redis (snd (invalidatePattern now env pattern w))) k = None)
            \<and> (keyspace (redis (snd (invalidateTag now env tag w))) k = keyspace (redis w) k
               \<or> keyspace (redis (snd (invalidateTag now env tag w))) k = None))"
proof (intro conjI allI impI)
  show "buildKey env cfg args = prefix env @ '':'' @ config_name cfg @ '':'' @ config_key cfg args"
    by (simp add: buildKey_def buildCacheKey_def)
  show "tagKey (prefix env) tag = prefix env @ '':tag:'' @ tag" by (simp add: tagKey_def)
  show "versionKey (prefix env) (buildKey env cfg args)
       = prefix env @ '':version:'' @ prefix env @ '':'' @ config_name cfg @ '':'' @ config_key cfg args"
    by (simp add: versionKey_def buildKey_def buildCacheKey_def)
  show "versionedKey (prefix env) (buildKey env cfg args) N
       = prefix env @ '':'' @ prefix env @ '':'' @ config_name cfg @ '':'' @ config_key cfg args
         @ '':v'' @ N"
    by (simp add: versionedKey_def buildKey_def buildCacheKey_def)
  show "keyspace (redis (snd (getMany now cfg env argss w))) = keyspace (redis w)"
    by (rule getMany_frame)
next
  assume a: "CHR '':'' \<notin> set (prefix env) \<and> CHR '':'' \<notin> set (config_name cfg)"
  then have sp: "split CHR '':'' (buildKey env cfg args)
             = prefix env # config_name cfg # split CHR '':'' (config_key cfg args)"
    by (simp add: buildKey_def split_cache_key)
  show "patternKey (prefix env) (split CHR '':'' (buildKey env cfg args) ! 1)
           = prefix env @ '':pattern:'' @ config_name cfg"
    by (simp add: sp patternKey_def)
  show "3 \<le> length (split CHR '':'' (buildKey env cfg args))"
    using split_nonempty[of "CHR '':''" "config_key cfg args"]
    by (cases "split CHR '':'' (config_key cfg args)") (simp_all add: sp)
next
  fix k
  assume a: "(mode env = Server \<longrightarrow> k \<noteq> buildKey env cfg args)
          \<and> (mode env = Serverless \<longrightarrow> k \<noteq> versionKey (prefix env) (buildKey env cfg args)
                 \<and> (\<forall>N. k \<noteq> versionedKey (prefix env) (buildKey env cfg args) N))
          \<and> k \<noteq> patternKey (prefix env) (split CHR '':'' (buildKey env cfg args) ! 1)
          \<and> (\<forall>tags. config_tags cfg = Some tags \<longrightarrow> k \<notin> tagKey (prefix env) ` set (tags args))"
  have "preserves (\<lambda>w' :: 'args world. keyspace (redis w') k = keyspace (redis w) k)
          (set_value now cfg env args v)"
    using a by (intro set_value_frame[where c = "keyspace (redis w) k"]) simp_all
  from preservesD[OF this, of w]
  show "keyspace (redis (snd (set_value now cfg env args v w))) k = keyspace (redis w) k" by simp
  have "preserves (\<lambda>w' :: 'args world. keyspace (redis w') k = keyspace (redis w) k)
          (get gt now cfg env args)"
    using a by (intro get_frame[where c = "keyspace (redis w) k"]) simp_all
  from preservesD[OF this, of w]
  show "keyspace (redis (snd (get gt now cfg env args w))) k = keyspace (redis w) k" by simp
next
  fix k
  assume "\<forall>a \<in> fst ` set entries.
              k \<noteq> buildKey env cfg a
              \<and> k \<noteq> patternKey (prefix env) (split CHR '':'' (buildKey env cfg a) ! 1)
              \<and> (\<forall>tags. config_tags cfg = Some tags \<longrightarrow> k \<notin> tagKey (prefix env) ` set (tags a))"
  then show "keyspace (redis (snd (setMany now cfg env entries w))) k = keyspace (redis w) k"
    by (rule setMany_frame)
next
  fix k
  assume "\<forall>a \<in> warm_args ` set warmed.
              k \<noteq> buildKey env cfg a
              \<and> k \<noteq> patternKey (prefix env) (split CHR '':'' (buildKey env cfg a) ! 1)
              \<and> (\<forall>tags. config_tags cfg = Some tags \<longrightarrow> k \<notin> tagKey (prefix env) ` set (tags a))"
  then show "keyspace (redis (snd (warm now cfg env warmed w))) k = keyspace (redis w) k"
    by (rule warm_frame)
next
  fix k
  assume a: "mode env = Serverless \<and> k \<noteq> versionKey (prefix env) (buildKey env cfg args)"
  have "preserves (\<lambda>w' :: 'args world. keyspace (redis w') k = keyspace (redis w) k)
          (invalidate now cfg env args)"
    using a unfolding invalidate_def
    by (auto intro!: VersionedCache_invalidate_frame preserves_emit)
  from preservesD[OF this, of w]
  show "keyspace (redis (snd (invalidate now cfg env args w))) k = keyspace (redis w) k" by simp
next
  fix k
  assume a: "mode env = Server
          \<and> k \<noteq> patternKey (prefix env) (split CHR '':'' (buildKey env cfg args) ! 1)
          \<and> (\<forall>tags. config_tags cfg = Some tags \<longrightarrow> k \<notin> tagKey (prefix env) ` set (tags args))"
  then have "preserves (\<lambda>w' :: 'args world. keyspace (redis w') k = keyspace (redis w) k
                                        \<or> keyspace (redis w') k = None)
          (invalidate now cfg env args)"
    by (intro invalidate_server_frame) simp_all
  from preservesD[OF this, of w]
  show "keyspace (redis (snd (invalidate now cfg env args w))) k = keyspace (redis w) k
            \<or> keyspace (redis (snd (invalidate now cfg env args w))) k = None" by simp
next
  fix k
  have "preserves (\<lambda>w' :: 'args world. keyspace (redis w') k = keyspace (redis w) k
                                        \<or> keyspace (redis w') k = None)
          (invalidateMany now cfg env argss)"
    by (rule invalidateMany_frame)
  from preservesD[OF this, of w]
  show "keyspace (redis (snd (invalidateMany now cfg env argss w))) k = keyspace (redis w) k
            \<or> keyspace (redis (snd (invalidateMany now cfg env argss w))) k = None" by simp
  have "preserves (\<lambda>w' :: 'args world. keyspace (redis w') k = keyspace (redis w) k
                                        \<or> keyspace (redis w') k = None)
          (invalidateKeys now env keys)"
    by (rule invalidateKeys_frame)
  from preservesD[OF this, of w]
  show "keyspace (redis (snd (invalidateKeys now env keys w))) k = keyspace (redis w) k
              \<or> keyspace (redis (snd (invalidateKeys now env keys w))) k = None" by simp
next
  fix k
  assume a: "mode env = Serverless \<longrightarrow> (\<forall>m. k \<noteq> versionKey (prefix env) m)"
  have "preserves (\<lambda>w' :: 'args world. keyspace (redis w') k = keyspace (redis w) k
                                        \<or> keyspace (redis w') k = None)
          (invalidatePattern now env pattern)"
    using a by (rule invalidatePattern_frame)
  from preservesD[OF this, of w]
  show "keyspace (redis (snd (invalidatePattern now env pattern w))) k = keyspace (redis w) k
               \<or> keyspace (redis (snd (invalidatePattern now env pattern w))) k = None" by simp
  have "preserves (\<lambda>w' :: 'args world. keyspace (redis w') k = keyspace (redis w) k
                                        \<or> keyspace (redis w') k = None)
          (invalidateTag now env tag)"
    using a by (rule invalidateTag_frame)
  from preservesD[OF this, of w]
  show "keyspace (redis (snd (invalidateTag now env tag w))) k = keyspace (redis w) k
               \<or> keyspace (redis (snd (invalidateTag now env tag w))) k = None" by simp
qed

text \<open>
  The claim as stated fails twice. A serverless \<open>set\<close> of user 1 with prefix \<open>test-cache\<close>
  leaves nothing under \<open>test-cache:user:1:v0\<close>: the payload is under
  \<open>test-cache:test-cache:user:1:v0\<close>. And with the prefix \<open>my:app\<close>, a \<open>set\<close> of user 1 puts
  the key \<open>my:app:user:1\<close> in the bucket \<open>my:app:pattern:app\<close> and leaves nothing under
  \<open>my:app:pattern:user\<close>.
\<close>

theorem persisted_key_layout_counterexample:
  "keyspace (redis (snd (set_value 1000 userCache
        (createCache (test_cache Serverless (table_codec [(user ''1'', ''u1'')])))
        ''1'' (user ''1'')
        (constructed (test_cache Serverless (table_codec [(user ''1'', ''u1'')])) new_redis))))
      ''test-cache:user:1:v0'' = None
   \<and> keyspace (redis (snd (set_value 1000 userCache
        (createCache (test_cache Serverless (table_codec [(user ''1'', ''u1'')])))
        ''1'' (user ''1'')
        (constructed (test_cache Serverless (table_codec [(user ''1'', ''u1'')])) new_redis))))
      ''test-cache:test-cache:user:1:v0'' = Some (RString ''u1'', None)
   \<and> keyspace (redis (snd (set_value 1000 userCache
        (createCache ((test_cache Server (table_codec [(user ''1'', ''u1'')]))\<lparr>cc_prefix := Some ''my:app''\<rparr>))
        ''1'' (user ''1'')
        (constructed ((test_cache Server (table_codec [(user ''1'', ''u1'')]))\<lparr>cc_prefix := Some ''my:app''\<rparr>)
           new_redis))))
      ''my:app:pattern:user'' = None
   \<and> keyspace (redis (snd (set_value 1000 userCache
        (createCache ((test_cache Server (table_codec [(user ''1'', ''u1'')]))\<lparr>cc_prefix := Some ''my:app''\<rparr>))
        ''1'' (user ''1'')
        (constructed ((test_cache Server (table_codec [(user ''1'', ''u1'')]))\<lparr>cc_prefix := Some ''my:app''\<rparr>)
           new_redis))))
      ''my:app:pattern:app'' = Some (RSet [''my:app:user:1''], None)"
  by (simp add: model_eval)

text \<open>
  With prefix \<open>test-cache\<close> and name \<open>user\<close>, the bucket of \<open>test-cache:user:1\<close> is
  \<open>test-cache:pattern:user\<close>, and a \<open>set\<close> of user 1 tagged \<open>users\<close> leaves
  \<open>test-cache:post:9\<close> alone.
\<close>

theorem persisted_key_layout_witness:
  "patternKey (prefix (createCache (test_cache Server (table_codec [(user ''1'', ''u1'')]))))
      (split CHR '':'' (buildKey (createCache (test_cache Server (table_codec [(user ''1'', ''u1'')])))
                          userCache ''1'') ! 1)
     = ''test-cache:pattern:user''
   \<and> keyspace (redis (snd (set_value 1000 (userCache\<lparr>config_tags := Some (\<lambda>userId. [''users''])\<rparr>)
        (createCache (test_cache Server (table_codec [(user ''1'', ''u1'')])))
        ''1'' (user ''1'')
        (constructed (test_cache Server (table_codec [(user ''1'', ''u1'')])) new_redis))))
      ''test-cache:post:9'' = None"
proof -
  let ?env = "createCache (test_cache Server (table_codec [(user ''1'', ''u1'')]))"
  let ?cfg = "userCache\<lparr>config_tags := Some (\<lambda>userId. [''users''])\<rparr>"
  let ?w = "constructed (test_cache Server (table_codec [(user ''1'', ''u1'')])) new_redis :: string world"
  note T = persisted_key_layout[where env = ?env and args = "''1''" and now = 1000
      and v = "user ''1''" and w = ?w]
  have c: "CHR '':'' \<notin> set (prefix ?env) \<and> CHR '':'' \<notin> set (config_name userCache)"
    by (simp add: createCache_def test_cache_def userCache_def)
  note seg = T[where cfg = userCache, THEN conjunct2, THEN conjunct2, THEN conjunct1,
      rule_format, OF c, THEN conjunct2]
  have k: "buildKey ?env ?cfg ''1'' = ''test-cache:user:1''"
    by (simp add: buildKey_def buildCacheKey_def createCache_def test_cache_def userCache_def)
  have seg': "split CHR '':'' ''test-cache:user:1'' ! 1 = ''user''" by simp
  have h: "(mode ?env = Server \<longrightarrow> ''test-cache:post:9'' \<noteq> buildKey ?env ?cfg ''1'')
          \<and> (mode ?env = Serverless \<longrightarrow> ''test-cache:post:9'' \<noteq> versionKey (prefix ?env) (buildKey ?env ?cfg ''1'')
                 \<and> (\<forall>N. ''test-cache:post:9'' \<noteq> versionedKey (prefix ?env) (buildKey ?env ?cfg ''1'') N))
          \<and> ''test-cache:post:9'' \<noteq> patternKey (prefix ?env) (split CHR '':'' (buildKey ?env ?cfg ''1'') ! 1)
          \<and> (\<forall>tags. config_tags ?cfg = Some tags \<longrightarrow> ''test-cache:post:9'' \<notin> tagKey (prefix ?env) ` set (tags ''1''))"
    unfolding k seg' by (auto simp: createCache_def test_cache_def patternKey_def tagKey_def)
  from T[where cfg = ?cfg, THEN conjunct2, THEN conjunct2, THEN conjunct2, THEN conjunct2,
         THEN conjunct2, THEN conjunct1, rule_format, OF h, THEN conjunct1]
  have "keyspace (redis (snd (set_value 1000 ?cfg ?env ''1'' (user ''1'') ?w))) ''test-cache:post:9''
        = keyspace (redis ?w) ''test-cache:post:9''" .
  then have "keyspace (redis (snd (set_value 1000 ?cfg ?env ''1'' (user ''1'') ?w))) ''test-cache:post:9'' = None"
    by (simp add: constructed_def new_redis_def)
  with seg show ?thesis by (simp add: userCache_def createCache_def test_cache_def)
qed

section \<open>Unwrapping by shape\<close>

text \<open>
  Claim C9. The wrapper is recognised by its shape. In server mode, on a store that
  answers, an object that has both a \<open>data\<close> and an \<open>expiresAt\<close> property is unwrapped
  whatever the definition's configuration is (so also with no stale-while-revalidate),
  be it read from the store through the circuit breaker or found in the \<open>LocalCache\<close>. Its
  staleness is read off its \<open>expiresAt\<close> and \<open>staleUntil\<close> properties: it is stale when
  \<open>expiresAt\<close> is truthy and less than the clock, past its stale bound when \<open>staleUntil\<close> is
  truthy and less than the clock (for a number: when it is not 0 and less; for a string:
  when it is not empty and the runtime's comparison says so; never when the property is
  missing). Past its stale bound the object is a miss: the \<open>miss\<close> event is emitted and
  \<open>get\<close> returns what the fetch of a miss returns (\<open>null\<close> with no fetch function), and an
  entry of the \<open>LocalCache\<close> is deleted before the store is asked. Stale, and with a fetch
  function, \<open>get\<close> returns the \<open>data\<close> property and schedules one revalidation. Otherwise
  \<open>get\<close> returns the \<open>data\<close> property, schedules nothing and fetches nothing. An object that
  lacks one of the two properties is returned as it is.
\<close>

theorem envelope_detected_by_shape:
  fixes w :: "'args world"
  assumes "mode env = Server" and "healthy (redis w)"
  shows
  "(let u = unwrapValue gt now (JObj props);
        k = buildKey env cfg args;
        until = property (JObj props) ''staleUntil'';
        stored = ((localCache w = None
                    \<or> (\<exists>lc. localCache w = Some lc \<and> map_of (lru_entries lc) k = None))
                  \<and> \<not> (state (circuitBreaker w) = Open \<and> now < nextAttempt (circuitBreaker w))
                  \<and> live now (keyspace (redis w)) k = Some (RString s, d) \<and> s \<noteq> []
                  \<and> deserialize (serializer env) s = Inr (JObj props))
    in
    (map_of props ''data'' = Some payload \<and> map_of props ''expiresAt'' = Some e \<longrightarrow>
       data u = payload
       \<and> isStale u = (truthy e \<and> js_gt gt now e)
       \<and> isPastStale u = (truthy until \<and> js_gt gt now until)
       \<and> (\<forall>n. e = JNum n \<longrightarrow> isStale u = (n \<noteq> 0 \<and> n < now))
       \<and> (\<forall>t. e = JStr t \<longrightarrow> isStale u = (t \<noteq> [] \<and> gt now t))
       \<and> (\<forall>n. until = JNum n \<longrightarrow> isPastStale u = (n \<noteq> 0 \<and> n < now))
       \<and> (\<forall>t. until = JStr t \<longrightarrow> isPastStale u = (t \<noteq> [] \<and> gt now t))
       \<and> (map_of props ''staleUntil'' = None \<longrightarrow> \<not> isPastStale u)
       \<and> (stored \<and> isPastStale u \<and> config_fetch cfg = None \<longrightarrow>
            fst (get gt now cfg env args w) = Inr JNull
            \<and> emitted (snd (get gt now cfg env args w)) = emitted w @ [MissEvent k])
       \<and> (stored \<and> isPastStale u \<longrightarrow>
            (\<forall>x w1. fetch_on_miss now cfg env args
                      (w\<lparr>circuitBreaker := snd (admit now (circuitBreaker w)),
                         redis := (redis w)\<lparr>issued := Suc (issued (redis w))\<rparr>,
                         emitted := emitted w @ [MissEvent k]\<rparr>) = (Inr x, w1) \<longrightarrow>
                    fst (get gt now cfg env args w) = Inr x))
       \<and> (stored \<and> \<not> isPastStale u \<and> isStale u \<and> config_fetch cfg \<noteq> None \<longrightarrow>
            fst (get gt now cfg env args w) = Inr payload
            \<and> revalidating (snd (get gt now cfg env args w)) = revalidating w @ [args]
            \<and> fetches (snd (get gt now cfg env args w)) = fetches w
            \<and> emitted (snd (get gt now cfg env args w)) = emitted w @ [HitEvent k ''redis''])
       \<and> (stored \<and> \<not> isPastStale u \<and> \<not> (isStale u \<and> config_fetch cfg \<noteq> None) \<longrightarrow>
            fst (get gt now cfg env args w) = Inr payload
            \<and> revalidating (snd (get gt now cfg env args w)) = revalidating w
            \<and> fetches (snd (get gt now cfg env args w)) = fetches w
            \<and> emitted (snd (get gt now cfg env args w)) = emitted w @ [HitEvent k ''redis''])
       \<and> (\<forall>lc lc1. localCache w = Some lc \<and> LocalCache_get now k lc = (Some (JObj props), lc1) \<longrightarrow>
            (isPastStale u \<longrightarrow>
               get gt now cfg env args w
               = through_breaker now (get_primary gt now cfg env args) (get_fallback now cfg env args)
                   (w\<lparr>localCache := Some (LocalCache_delete k lc1)\<rparr>))
            \<and> (\<not> isPastStale u \<and> isStale u \<and> config_fetch cfg \<noteq> None \<longrightarrow>
                 fst (get gt now cfg env args w) = Inr payload
                 \<and> revalidating (snd (get gt now cfg env args w)) = revalidating w @ [args]
                 \<and> fetches (snd (get gt now cfg env args w)) = fetches w
                 \<and> emitted (snd (get gt now cfg env args w)) = emitted w @ [HitEvent k ''local''])
            \<and> (\<not> isPastStale u \<and> \<not> (isStale u \<and> config_fetch cfg \<noteq> None) \<longrightarrow>
                 fst (get gt now cfg env args w) = Inr payload
                 \<and> revalidating (snd (get gt now cfg env args w)) = revalidating w
                 \<and> fetches (snd (get gt now cfg env args w)) = fetches w
                 \<and> emitted (snd (get gt now cfg env args w)) = emitted w @ [HitEvent k ''local''])))
    \<and> ((map_of props ''data'' = None \<or> map_of props ''expiresAt'' = None) \<longrightarrow>
         (stored \<longrightarrow> fst (get gt now cfg env args w) = Inr (JObj props))
         \<and> (\<forall>lc lc1. localCache w = Some lc \<and> LocalCache_get now k lc = (Some (JObj props), lc1) \<longrightarrow>
              fst (get gt now cfg env args w) = Inr (JObj props))))"
proof -
  let ?u = "unwrapValue gt now (JObj props)"
  let ?k = "buildKey env cfg args"
  let ?until = "property (JObj props) ''staleUntil''"
  let ?stored = "((localCache w = None
                    \<or> (\<exists>lc. localCache w = Some lc \<and> map_of (lru_entries lc) ?k = None))
                  \<and> \<not> (state (circuitBreaker w) = Open \<and> now < nextAttempt (circuitBreaker w))
                  \<and> live now (keyspace (redis w)) ?k = Some (RString s, d) \<and> s \<noteq> []
                  \<and> deserialize (serializer env) s = Inr (JObj props))"
  let ?g = "get gt now cfg env args w"
  have shape: "map_of props ''data'' = Some payload \<and> map_of props ''expiresAt'' = Some e \<Longrightarrow>
       data ?u = payload
       \<and> isStale ?u = (truthy e \<and> js_gt gt now e)
       \<and> isPastStale ?u = (truthy ?until \<and> js_gt gt now ?until)"
    by (simp add: unwrapValue_object)
  have pins: "map_of props ''data'' = Some payload \<and> map_of props ''expiresAt'' = Some e \<Longrightarrow>
         (\<forall>n. e = JNum n \<longrightarrow> isStale ?u = (n \<noteq> 0 \<and> n < now))
       \<and> (\<forall>t. e = JStr t \<longrightarrow> isStale ?u = (t \<noteq> [] \<and> gt now t))
       \<and> (\<forall>n. ?until = JNum n \<longrightarrow> isPastStale ?u = (n \<noteq> 0 \<and> n < now))
       \<and> (\<forall>t. ?until = JStr t \<longrightarrow> isPastStale ?u = (t \<noteq> [] \<and> gt now t))
       \<and> (map_of props ''staleUntil'' = None \<longrightarrow> \<not> isPastStale ?u)"
    by (auto simp: unwrapValue_object)
  have store_past_none: "?stored \<and> isPastStale ?u \<and> config_fetch cfg = None \<Longrightarrow>
            fst ?g = Inr JNull \<and> emitted (snd ?g) = emitted w @ [MissEvent ?k]"
  proof -
    assume a: "?stored \<and> isPastStale ?u \<and> config_fetch cfg = None"
    let ?w2 = "w\<lparr>circuitBreaker := snd (admit now (circuitBreaker w)),
                  redis := (redis w)\<lparr>issued := Suc (issued (redis w))\<rparr>,
                  emitted := emitted w @ [MissEvent ?k]\<rparr>"
    have f: "fetch_on_miss now cfg env args ?w2 = (Inr JNull, ?w2)"
      using a by (simp add: fetch_on_miss_def ret_def)
    from a have p: "isPastStale ?u" by simp
    from a have s1: "localCache w = None
                    \<or> (\<exists>lc. localCache w = Some lc \<and> map_of (lru_entries lc) ?k = None)"
      and s2: "\<not> (state (circuitBreaker w) = Open \<and> now < nextAttempt (circuitBreaker w))"
      and s3: "live now (keyspace (redis w)) ?k = Some (RString s, d)" and s4: "s \<noteq> []"
      and s5: "deserialize (serializer env) s = Inr (JObj props)" by simp_all
    have "?g = (Inr JNull, ?w2\<lparr>circuitBreaker := onSuccess (circuitBreaker ?w2)\<rparr>)"
      by (rule get_server_store(1)[OF assms(1) s1 s2 assms(2) s3 s4 s5 p f])
    then show ?thesis by simp
  qed
  have store_past: "?stored \<and> isPastStale ?u \<Longrightarrow>
            (\<forall>x w1. fetch_on_miss now cfg env args
                      (w\<lparr>circuitBreaker := snd (admit now (circuitBreaker w)),
                         redis := (redis w)\<lparr>issued := Suc (issued (redis w))\<rparr>,
                         emitted := emitted w @ [MissEvent ?k]\<rparr>) = (Inr x, w1) \<longrightarrow>
                    fst ?g = Inr x)"
  proof (intro allI impI)
    fix x w1
    assume a: "?stored \<and> isPastStale ?u"
      and f: "fetch_on_miss now cfg env args
                      (w\<lparr>circuitBreaker := snd (admit now (circuitBreaker w)),
                         redis := (redis w)\<lparr>issued := Suc (issued (redis w))\<rparr>,
                         emitted := emitted w @ [MissEvent ?k]\<rparr>) = (Inr x, w1)"
    from a have p: "isPastStale ?u" by simp
    from a have s1: "localCache w = None
                    \<or> (\<exists>lc. localCache w = Some lc \<and> map_of (lru_entries lc) ?k = None)"
      and s2: "\<not> (state (circuitBreaker w) = Open \<and> now < nextAttempt (circuitBreaker w))"
      and s3: "live now (keyspace (redis w)) ?k = Some (RString s, d)" and s4: "s \<noteq> []"
      and s5: "deserialize (serializer env) s = Inr (JObj props)" by simp_all
    have "?g = (Inr x, w1\<lparr>circuitBreaker := onSuccess (circuitBreaker w1)\<rparr>)"
      by (rule get_server_store(1)[OF assms(1) s1 s2 assms(2) s3 s4 s5 p f])
    then show "fst ?g = Inr x" by simp
  qed
  have store_stale: "?stored \<and> \<not> isPastStale ?u \<and> isStale ?u \<and> config_fetch cfg \<noteq> None \<Longrightarrow>
            fst ?g = Inr (data ?u)
            \<and> revalidating (snd ?g) = revalidating w @ [args]
            \<and> fetches (snd ?g) = fetches w
            \<and> emitted (snd ?g) = emitted w @ [HitEvent ?k ''redis'']"
  proof -
    assume a: "?stored \<and> \<not> isPastStale ?u \<and> isStale ?u \<and> config_fetch cfg \<noteq> None"
    then have p: "\<not> isPastStale ?u" and st: "isStale ?u \<and> config_fetch cfg \<noteq> None" by simp_all
    from a have s1: "localCache w = None
                    \<or> (\<exists>lc. localCache w = Some lc \<and> map_of (lru_entries lc) ?k = None)"
      and s2: "\<not> (state (circuitBreaker w) = Open \<and> now < nextAttempt (circuitBreaker w))"
      and s3: "live now (keyspace (redis w)) ?k = Some (RString s, d)" and s4: "s \<noteq> []"
      and s5: "deserialize (serializer env) s = Inr (JObj props)" by simp_all
    have "?g = (Inr (data ?u),
            w\<lparr>redis := (redis w)\<lparr>issued := Suc (issued (redis w))\<rparr>,
               circuitBreaker := onSuccess (snd (admit now (circuitBreaker w))),
               emitted := emitted w @ [HitEvent ?k ''redis''],
               revalidating := revalidating w @ [args]\<rparr>)"
      by (rule get_server_store(2)[OF assms(1) s1 s2 assms(2) s3 s4 s5 p st])
    then show ?thesis by simp
  qed
  have store_fresh: "?stored \<and> \<not> isPastStale ?u \<and> \<not> (isStale ?u \<and> config_fetch cfg \<noteq> None) \<Longrightarrow>
            fst ?g = Inr (data ?u)
            \<and> revalidating (snd ?g) = revalidating w
            \<and> fetches (snd ?g) = fetches w
            \<and> emitted (snd ?g) = emitted w @ [HitEvent ?k ''redis'']"
  proof -
    assume a: "?stored \<and> \<not> isPastStale ?u \<and> \<not> (isStale ?u \<and> config_fetch cfg \<noteq> None)"
    then have p: "\<not> isPastStale ?u" and st: "\<not> (isStale ?u \<and> config_fetch cfg \<noteq> None)" by simp_all
    from a have s1: "localCache w = None
                    \<or> (\<exists>lc. localCache w = Some lc \<and> map_of (lru_entries lc) ?k = None)"
      and s2: "\<not> (state (circuitBreaker w) = Open \<and> now < nextAttempt (circuitBreaker w))"
      and s3: "live now (keyspace (redis w)) ?k = Some (RString s, d)" and s4: "s \<noteq> []"
      and s5: "deserialize (serializer env) s = Inr (JObj props)" by simp_all
    from get_server_store(3)[OF assms(1) s1 s2 assms(2) s3 s4 s5 p st]
    obtain r' where "?g = (Inr (data ?u),
            w\<lparr>redis := r',
               localCache :=
                 (if truthy (data ?u)
                  then map_option (LocalCache_set now ?k (JObj props) (getTTL cfg (Some (data ?u))))
                         (localCache w)
                  else localCache w),
               circuitBreaker := onSuccess (snd (admit now (circuitBreaker w))),
               emitted := emitted w @ [HitEvent ?k ''redis'']\<rparr>)" by blast
    then show ?thesis by simp
  qed
  have local_past: "\<And>lc lc1. localCache w = Some lc \<and> LocalCache_get now ?k lc = (Some (JObj props), lc1) \<Longrightarrow>
            isPastStale ?u \<Longrightarrow>
               ?g = through_breaker now (get_primary gt now cfg env args) (get_fallback now cfg env args)
                   (w\<lparr>localCache := Some (LocalCache_delete ?k lc1)\<rparr>)"
  proof -
    fix lc lc1
    assume a: "localCache w = Some lc \<and> LocalCache_get now ?k lc = (Some (JObj props), lc1)"
      and p: "isPastStale ?u"
    from a have a1: "localCache w = Some lc" and a2: "LocalCache_get now ?k lc = (Some (JObj props), lc1)"
      by simp_all
    show "?g = through_breaker now (get_primary gt now cfg env args) (get_fallback now cfg env args)
                   (w\<lparr>localCache := Some (LocalCache_delete ?k lc1)\<rparr>)"
      by (rule get_server_local(1)[OF assms(1) a1 a2 p])
  qed
  have local_stale: "\<And>lc lc1. localCache w = Some lc \<and> LocalCache_get now ?k lc = (Some (JObj props), lc1) \<Longrightarrow>
            \<not> isPastStale ?u \<and> isStale ?u \<and> config_fetch cfg \<noteq> None \<Longrightarrow>
                 fst ?g = Inr (data ?u)
                 \<and> revalidating (snd ?g) = revalidating w @ [args]
                 \<and> fetches (snd ?g) = fetches w
                 \<and> emitted (snd ?g) = emitted w @ [HitEvent ?k ''local'']"
  proof -
    fix lc lc1
    assume a: "localCache w = Some lc \<and> LocalCache_get now ?k lc = (Some (JObj props), lc1)"
      and b: "\<not> isPastStale ?u \<and> isStale ?u \<and> config_fetch cfg \<noteq> None"
    from a have a1: "localCache w = Some lc" and a2: "LocalCache_get now ?k lc = (Some (JObj props), lc1)"
      by simp_all
    from b have p: "\<not> isPastStale ?u" and st: "isStale ?u \<and> config_fetch cfg \<noteq> None"
      by simp_all
    have "?g = (Inr (data ?u),
            w\<lparr>localCache := Some lc1, revalidating := revalidating w @ [args],
               emitted := emitted w @ [HitEvent ?k ''local'']\<rparr>)"
      by (rule get_server_local(2)[OF assms(1) a1 a2 p st])
    then show "fst ?g = Inr (data ?u)
                 \<and> revalidating (snd ?g) = revalidating w @ [args]
                 \<and> fetches (snd ?g) = fetches w
                 \<and> emitted (snd ?g) = emitted w @ [HitEvent ?k ''local'']" by simp
  qed
  have local_fresh: "\<And>lc lc1. localCache w = Some lc \<and> LocalCache_get now ?k lc = (Some (JObj props), lc1) \<Longrightarrow>
            \<not> isPastStale ?u \<and> \<not> (isStale ?u \<and> config_fetch cfg \<noteq> None) \<Longrightarrow>
                 fst ?g = Inr (data ?u)
                 \<and> revalidating (snd ?g) = revalidating w
                 \<and> fetches (snd ?g) = fetches w
                 \<and> emitted (snd ?g) = emitted w @ [HitEvent ?k ''local'']"
  proof -
    fix lc lc1
    assume a: "localCache w = Some lc \<and> LocalCache_get now ?k lc = (Some (JObj props), lc1)"
      and b: "\<not> isPastStale ?u \<and> \<not> (isStale ?u \<and> config_fetch cfg \<noteq> None)"
    from a have a1: "localCache w = Some lc" and a2: "LocalCache_get now ?k lc = (Some (JObj props), lc1)"
      by simp_all
    from b have p: "\<not> isPastStale ?u" and st: "\<not> (isStale ?u \<and> config_fetch cfg \<noteq> None)"
      by simp_all
    show "fst ?g = Inr (data ?u)
                 \<and> revalidating (snd ?g) = revalidating w
                 \<and> fetches (snd ?g) = fetches w
                 \<and> emitted (snd ?g) = emitted w @ [HitEvent ?k ''local'']"
      by (rule get_server_local(3)[OF assms(1) a1 a2 p st assms(2)])
  qed
  have plain: "map_of props ''data'' = None \<or> map_of props ''expiresAt'' = None \<Longrightarrow>
               ?u = \<lparr> data = JObj props, isStale = False, isPastStale = False \<rparr>"
    by (auto simp: unwrapValue_object)
  show ?thesis
    unfolding Let_def
  proof (intro conjI impI allI)
    assume sh: "map_of props ''data'' = Some payload \<and> map_of props ''expiresAt'' = Some e"
    note d = shape[OF sh, THEN conjunct1]
    show "data ?u = payload" "isStale ?u = (truthy e \<and> js_gt gt now e)"
      "isPastStale ?u = (truthy ?until \<and> js_gt gt now ?until)"
      using shape[OF sh] by simp_all
    show "\<And>n. e = JNum n \<Longrightarrow> isStale ?u = (n \<noteq> 0 \<and> n < now)"
      "\<And>t. e = JStr t \<Longrightarrow> isStale ?u = (t \<noteq> [] \<and> gt now t)"
      "\<And>n. ?until = JNum n \<Longrightarrow> isPastStale ?u = (n \<noteq> 0 \<and> n < now)"
      "\<And>t. ?until = JStr t \<Longrightarrow> isPastStale ?u = (t \<noteq> [] \<and> gt now t)"
      "map_of props ''staleUntil'' = None \<Longrightarrow> \<not> isPastStale ?u"
      using pins[OF sh] by blast+
    show "?stored \<and> isPastStale ?u \<and> config_fetch cfg = None \<Longrightarrow> fst ?g = Inr JNull"
      "?stored \<and> isPastStale ?u \<and> config_fetch cfg = None \<Longrightarrow>
       emitted (snd ?g) = emitted w @ [MissEvent ?k]"
      using store_past_none by blast+
    show "\<And>x w1. ?stored \<and> isPastStale ?u \<Longrightarrow>
            fetch_on_miss now cfg env args
                      (w\<lparr>circuitBreaker := snd (admit now (circuitBreaker w)),
                         redis := (redis w)\<lparr>issued := Suc (issued (redis w))\<rparr>,
                         emitted := emitted w @ [MissEvent ?k]\<rparr>) = (Inr x, w1) \<Longrightarrow>
            fst ?g = Inr x"
      using store_past by blast
    show "?stored \<and> \<not> isPastStale ?u \<and> isStale ?u \<and> config_fetch cfg \<noteq> None \<Longrightarrow> fst ?g = Inr payload"
      "?stored \<and> \<not> isPastStale ?u \<and> isStale ?u \<and> config_fetch cfg \<noteq> None \<Longrightarrow>
       revalidating (snd ?g) = revalidating w @ [args]"
      "?stored \<and> \<not> isPastStale ?u \<and> isStale ?u \<and> config_fetch cfg \<noteq> None \<Longrightarrow>
       fetches (snd ?g) = fetches w"
      "?stored \<and> \<not> isPastStale ?u \<and> isStale ?u \<and> config_fetch cfg \<noteq> None \<Longrightarrow>
       emitted (snd ?g) = emitted w @ [HitEvent ?k ''redis'']"
      using store_stale d by simp_all
    show "?stored \<and> \<not> isPastStale ?u \<and> \<not> (isStale ?u \<and> config_fetch cfg \<noteq> None) \<Longrightarrow> fst ?g = Inr payload"
      "?stored \<and> \<not> isPastStale ?u \<and> \<not> (isStale ?u \<and> config_fetch cfg \<noteq> None) \<Longrightarrow>
       revalidating (snd ?g) = revalidating w"
      "?stored \<and> \<not> isPastStale ?u \<and> \<not> (isStale ?u \<and> config_fetch cfg \<noteq> None) \<Longrightarrow>
       fetches (snd ?g) = fetches w"
      "?stored \<and> \<not> isPastStale ?u \<and> \<not> (isStale ?u \<and> config_fetch cfg \<noteq> None) \<Longrightarrow>
       emitted (snd ?g) = emitted w @ [HitEvent ?k ''redis'']"
      using store_fresh d by simp_all
    show "\<And>lc lc1. localCache w = Some lc \<and> LocalCache_get now ?k lc = (Some (JObj props), lc1) \<Longrightarrow>
            isPastStale ?u \<Longrightarrow>
               ?g = through_breaker now (get_primary gt now cfg env args) (get_fallback now cfg env args)
                   (w\<lparr>localCache := Some (LocalCache_delete ?k lc1)\<rparr>)"
      using local_past by blast
    show "\<And>lc lc1. localCache w = Some lc \<and> LocalCache_get now ?k lc = (Some (JObj props), lc1) \<Longrightarrow>
            \<not> isPastStale ?u \<and> isStale ?u \<and> config_fetch cfg \<noteq> None \<Longrightarrow> fst ?g = Inr payload"
      "\<And>lc lc1. localCache w = Some lc \<and> LocalCache_get now ?k lc = (Some (JObj props), lc1) \<Longrightarrow>
            \<not> isPastStale ?u \<and> isStale ?u \<and> config_fetch cfg \<noteq> None \<Longrightarrow>
            revalidating (snd ?g) = revalidating w @ [args]"
      "\<And>lc lc1. localCache w = Some lc \<and> LocalCache_get now ?k lc = (Some (JObj props), lc1) \<Longrightarrow>
            \<not> isPastStale ?u \<and> isStale ?u \<and> config_fetch cfg \<noteq> None \<Longrightarrow>
            fetches (snd ?g) = fetches w"
      "\<And>lc lc1. localCache w = Some lc \<and> LocalCache_get now ?k lc = (Some (JObj props), lc1) \<Longrightarrow>
            \<not> isPastStale ?u \<and> isStale ?u \<and> config_fetch cfg \<noteq> None \<Longrightarrow>
            emitted (snd ?g) = emitted w @ [HitEvent ?k ''local'']"
      using local_stale d by simp_all
    show "\<And>lc lc1. localCache w = Some lc \<and> LocalCache_get now ?k lc = (Some (JObj props), lc1) \<Longrightarrow>
            \<not> isPastStale ?u \<and> \<not> (isStale ?u \<and> config_fetch cfg \<noteq> None) \<Longrightarrow> fst ?g = Inr payload"
      "\<And>lc lc1. localCache w = Some lc \<and> LocalCache_get now ?k lc = (Some (JObj props), lc1) \<Longrightarrow>
            \<not> isPastStale ?u \<and> \<not> (isStale ?u \<and> config_fetch cfg \<noteq> None) \<Longrightarrow>
            revalidating (snd ?g) = revalidating w"
      "\<And>lc lc1. localCache w = Some lc \<and> LocalCache_get now ?k lc = (Some (JObj props), lc1) \<Longrightarrow>
            \<not> isPastStale ?u \<and> \<not> (isStale ?u \<and> config_fetch cfg \<noteq> None) \<Longrightarrow>
            fetches (snd ?g) = fetches w"
      "\<And>lc lc1. localCache w = Some lc \<and> LocalCache_get now ?k lc = (Some (JObj props), lc1) \<Longrightarrow>
            \<not> isPastStale ?u \<and> \<not> (isStale ?u \<and> config_fetch cfg \<noteq> None) \<Longrightarrow>
            emitted (snd ?g) = emitted w @ [HitEvent ?k ''local'']"
      using local_fresh d by simp_all
  next
    assume np: "map_of props ''data'' = None \<or> map_of props ''expiresAt'' = None"
    note u = plain[OF np]
    show "?stored \<Longrightarrow> fst ?g = Inr (JObj props)"
      using store_fresh u by simp
    show "\<And>lc lc1. localCache w = Some lc \<and> LocalCache_get now ?k lc = (Some (JObj props), lc1) \<Longrightarrow>
              fst ?g = Inr (JObj props)"
      using local_fresh u by simp
  qed
qed

text \<open>
  Whatever the runtime's comparison of strings: a definition with no TTL, no
  stale-while-revalidate and no fetch function stores the plain value \<open>{data: 'inner',
  expiresAt: 5}\<close>, and the next \<open>get\<close> finds it in the \<open>LocalCache\<close> and returns \<open>'inner'\<close>; with
  the \<open>LocalCache\<close> disabled it stores \<open>{data: 'inner', expiresAt: 1, staleUntil: 5}\<close>, and
  the next \<open>get\<close>, at 2000, reads it from the store and returns \<open>null\<close>.
\<close>

theorem envelope_detected_by_shape_witness:
  "\<forall>gt.
     fst (get gt 2000 userCache
        (createCache (test_cache Server
           (table_codec [(JObj [(''data'', JStr ''inner''), (''expiresAt'', JNum 5)], ''obj'')])))
        ''1''
        (snd (set_value 1000 userCache
           (createCache (test_cache Server
              (table_codec [(JObj [(''data'', JStr ''inner''), (''expiresAt'', JNum 5)], ''obj'')])))
           ''1'' (JObj [(''data'', JStr ''inner''), (''expiresAt'', JNum 5)])
           (constructed (test_cache Server
              (table_codec [(JObj [(''data'', JStr ''inner''), (''expiresAt'', JNum 5)], ''obj'')]))
              new_redis))))
      = Inr (JStr ''inner'')
   \<and> fst (get gt 2000 userCache
        (createCache ((test_cache Server
           (table_codec [(JObj [(''data'', JStr ''inner''), (''expiresAt'', JNum 1), (''staleUntil'', JNum 5)], ''obj'')]))
           \<lparr>cc_local_enabled := False\<rparr>))
        ''1''
        (snd (set_value 1000 userCache
           (createCache ((test_cache Server
              (table_codec [(JObj [(''data'', JStr ''inner''), (''expiresAt'', JNum 1), (''staleUntil'', JNum 5)], ''obj'')]))
              \<lparr>cc_local_enabled := False\<rparr>))
           ''1'' (JObj [(''data'', JStr ''inner''), (''expiresAt'', JNum 1), (''staleUntil'', JNum 5)])
           (constructed ((test_cache Server
              (table_codec [(JObj [(''data'', JStr ''inner''), (''expiresAt'', JNum 1), (''staleUntil'', JNum 5)], ''obj'')]))
              \<lparr>cc_local_enabled := False\<rparr>)
              new_redis))))
      = Inr JNull"
proof
  fix gt :: string_comparison
  let ?obj = "[(''data'', JStr ''inner''), (''expiresAt'', JNum 5)]"
  let ?codec = "table_codec [(JObj ?obj, ''obj'')]"
  let ?env = "createCache (test_cache Server ?codec)"
  let ?w0 = "constructed (test_cache Server ?codec) new_redis :: string world"
  let ?w1 = "snd (set_value 1000 userCache ?env ''1'' (JObj ?obj) ?w0)"
  let ?lc = "\<lparr>lru_entries = [(''test-cache:user:1'', JObj ?obj, None)], lru_max = 1000, lru_ttl = None\<rparr>"
  have lc: "localCache ?w1 = Some ?lc" by (simp add: model_eval)
  have up: "healthy (redis ?w1)" by (simp add: model_eval)
  have k: "buildKey ?env userCache ''1'' = ''test-cache:user:1''"
    by (simp add: buildKey_def buildCacheKey_def createCache_def test_cache_def userCache_def)
  have sv: "mode ?env = Server" by (simp add: createCache_def test_cache_def)
  have sh: "map_of ?obj ''data'' = Some (JStr ''inner'') \<and> map_of ?obj ''expiresAt'' = Some (JNum 5)"
    by simp
  have g: "localCache ?w1 = Some ?lc
           \<and> LocalCache_get 2000 (buildKey ?env userCache ''1'') ?lc = (Some (JObj ?obj), ?lc)"
    using lc by (simp add: k LocalCache_get_def)
  have fr: "\<not> isPastStale (unwrapValue gt 2000 (JObj ?obj))
            \<and> \<not> (isStale (unwrapValue gt 2000 (JObj ?obj)) \<and> config_fetch userCache \<noteq> None)"
    by (simp add: unwrapValue_def userCache_def)
  note A = envelope_detected_by_shape[where env = ?env and w = ?w1 and props = ?obj and now = 2000
      and cfg = userCache and args = "''1''" and gt = gt and payload = "JStr ''inner''" and e = "JNum 5",
      OF sv up, unfolded Let_def, THEN conjunct1, rule_format, OF sh]
  note A13 = A[THEN conjunct2, THEN conjunct2, THEN conjunct2, THEN conjunct2, THEN conjunct2,
      THEN conjunct2, THEN conjunct2, THEN conjunct2, THEN conjunct2, THEN conjunct2,
      THEN conjunct2, THEN conjunct2, rule_format, OF g]
  note a = A13[THEN conjunct2, THEN conjunct2, rule_format, OF fr, THEN conjunct1]

  let ?objB = "[(''data'', JStr ''inner''), (''expiresAt'', JNum 1), (''staleUntil'', JNum 5)]"
  let ?codecB = "table_codec [(JObj ?objB, ''obj'')]"
  let ?cB = "(test_cache Server ?codecB)\<lparr>cc_local_enabled := False\<rparr>"
  let ?envB = "createCache ?cB"
  let ?wB0 = "constructed ?cB new_redis :: string world"
  let ?wB1 = "snd (set_value 1000 userCache ?envB ''1'' (JObj ?objB) ?wB0)"
  have upB: "healthy (redis ?wB1)" by (simp add: model_eval)
  have kB: "buildKey ?envB userCache ''1'' = ''test-cache:user:1''"
    by (simp add: buildKey_def buildCacheKey_def createCache_def test_cache_def userCache_def)
  have svB: "mode ?envB = Server" by (simp add: createCache_def test_cache_def)
  have shB: "map_of ?objB ''data'' = Some (JStr ''inner'') \<and> map_of ?objB ''expiresAt'' = Some (JNum 1)"
    by simp
  have stB: "((localCache ?wB1 = None
                    \<or> (\<exists>lc. localCache ?wB1 = Some lc
                          \<and> map_of (lru_entries lc) (buildKey ?envB userCache ''1'') = None))
                  \<and> \<not> (state (circuitBreaker ?wB1) = Open \<and> 2000 < nextAttempt (circuitBreaker ?wB1))
                  \<and> live 2000 (keyspace (redis ?wB1)) (buildKey ?envB userCache ''1'')
                      = Some (RString ''obj'', None) \<and> ''obj'' \<noteq> []
                  \<and> deserialize (serializer ?envB) ''obj'' = Inr (JObj ?objB))
             \<and> isPastStale (unwrapValue gt 2000 (JObj ?objB)) \<and> config_fetch userCache = None"
    by (simp add: model_eval unwrapValue_def split_def)
  note B = envelope_detected_by_shape[where env = ?envB and w = ?wB1 and props = ?objB and now = 2000
      and cfg = userCache and args = "''1''" and gt = gt and payload = "JStr ''inner''" and e = "JNum 1"
      and s = "''obj''" and d = None,
      OF svB upB, unfolded Let_def, THEN conjunct1, rule_format, OF shB]
  note b = B[THEN conjunct2, THEN conjunct2, THEN conjunct2, THEN conjunct2, THEN conjunct2,
      THEN conjunct2, THEN conjunct2, THEN conjunct2, THEN conjunct1, rule_format, OF stB, THEN conjunct1]
  from a b show "fst (get gt 2000 userCache ?env ''1'' ?w1) = Inr (JStr ''inner'')
     \<and> fst (get gt 2000 userCache ?envB ''1'' ?wB1) = Inr JNull" by (rule conjI)
qed

section \<open>Bulk reads\<close>

lemma getMany_unfold:
  "getMany now cfg env keys w =
     (if keys = [] then (Inr [], w)
      else (case redis_mget now (map (buildKey env cfg) keys) (redis w) of
              (Inl e, r') \<Rightarrow> (Inl e, w\<lparr>redis := r'\<rparr>)
            | (Inr values, r') \<Rightarrow> (deserialize_all (serializer env) values, w\<lparr>redis := r'\<rparr>)))"
  by (simp add: getMany_def await_def ret_def on_redis_def attempted_def Let_def
           split: prod.splits sum.splits)

lemma redis_mget_unfold:
  "redis_mget now ks r =
     (if fails r (issued r) then (Inl (StoreError ''connection lost''), r\<lparr>issued := Suc (issued r)\<rparr>)
      else (Inr (map (\<lambda>k. case live now (keyspace r) k of Some (RString s, _) \<Rightarrow> Some s | _ \<Rightarrow> None) ks),
            r\<lparr>issued := Suc (issued r)\<rparr>))"
  by (simp add: redis_mget_def await_def ret_def send_def)

text \<open>
  Claim C10. \<open>getMany\<close> is the multi-get of the store and nothing else (for the empty list
  there is nothing to get and the store is not contacted): it changes neither the
  \<open>LocalCache\<close> nor the circuit breaker, emits no event and fetches nothing; its result does
  not depend on the \<open>LocalCache\<close> or on the state of the breaker; and when the round trip
  to the store fails, the error is the result of \<open>getMany\<close> (no \<open>error\<close> event, no
  fetch-through).
\<close>

theorem getMany_bypasses_breaker_and_local_cache:
  "(getMany now cfg env keys w =
     (if keys = [] then (Inr [], w)
      else (case redis_mget now (map (buildKey env cfg) keys) (redis w) of
              (Inl e, r') \<Rightarrow> (Inl e, w\<lparr>redis := r'\<rparr>)
            | (Inr values, r') \<Rightarrow> (deserialize_all (serializer env) values, w\<lparr>redis := r'\<rparr>))))
   \<and> localCache (snd (getMany now cfg env keys w)) = localCache w
   \<and> circuitBreaker (snd (getMany now cfg env keys w)) = circuitBreaker w
   \<and> emitted (snd (getMany now cfg env keys w)) = emitted w
   \<and> fetches (snd (getMany now cfg env keys w)) = fetches w
   \<and> fst (getMany now cfg env keys (w\<lparr>localCache := lc, circuitBreaker := cb\<rparr>))
       = fst (getMany now cfg env keys w)
   \<and> (keys \<noteq> [] \<and> fails (redis w) (issued (redis w)) \<longrightarrow>
        fst (getMany now cfg env keys w) = Inl (StoreError ''connection lost''))"
  by (simp add: getMany_unfold redis_mget_unfold split: prod.splits sum.splits)

text \<open>Against a store that is down, \<open>getMany(['1'], ['2'])\<close> rejects and emits nothing.\<close>

theorem getMany_bypasses_breaker_and_local_cache_witness:
  "fst (getMany 0 userCache (createCache (test_cache Server (table_codec [])))
         [''1'', ''2''] (constructed (test_cache Server (table_codec [])) (down new_redis)))
     = Inl (StoreError ''connection lost'')
   \<and> emitted (snd (getMany 0 userCache (createCache (test_cache Server (table_codec [])))
         [''1'', ''2''] (constructed (test_cache Server (table_codec [])) (down new_redis)))) = []"
proof -
  let ?env = "createCache (test_cache Server (table_codec []))"
  let ?w = "constructed (test_cache Server (table_codec [])) (down new_redis) :: string world"
  note T = getMany_bypasses_breaker_and_local_cache[where now = 0 and cfg = userCache and env = ?env
      and keys = "[''1'', ''2'']" and w = ?w and lc = None and cb = "circuitBreaker ?w"]
  have h: "[''1'', ''2''] \<noteq> [] \<and> fails (redis ?w) (issued (redis ?w))"
    by (simp add: constructed_def down_def new_redis_def)
  have e: "emitted ?w = []" by (simp add: constructed_def)
  from T[THEN conjunct2, THEN conjunct2, THEN conjunct2, THEN conjunct2, THEN conjunct2,
         THEN conjunct2, rule_format, OF h]
       T[THEN conjunct2, THEN conjunct2, THEN conjunct2, THEN conjunct1] e
  show ?thesis by simp
qed


end
